theory Spec2Isabelle
  imports
    Main
    "HOL-Library.Word"
    "HOL-Library.Char_ord"
    "HOL-Library.List_Lexorder"
    "HOL-Library.Product_Lexorder"
    "HOL-Library.Multiset"
begin

section \<open>Data model\<close>

type_synonym uint64 = "64 word"

text \<open>
  Go's \<^verbatim>\<open>*big.Int\<close> amounts are unbounded integers (\<^typ>\<open>int\<close>); Go strings are byte
  sequences (\<^typ>\<open>string\<close>), compared bytewise.
\<close>

datatype ValidatorStatus =
  Active | YellowCard | RedCard | NotSubscribed | Banned | Untracked

datatype BlockType =
  MissedProposal | WrongFeeRecipient | OkPoolProposal | OkPoolProposalBlsKeys

record Block =
  Slot :: uint64
  BlockNumber :: uint64
  ValidatorIndex :: uint64
  ValidatorKey :: string
  BlockType :: BlockType
  Reward :: int
  WithdrawalAddress :: string

text \<open>
  \<^verbatim>\<open>oracle.ValidatorInfo\<close>, with the fields the API fills in
  (\<^verbatim>\<open>handleMemoryValidatorsByWithdrawal\<close>).
\<close>

record ValidatorInfo =
  ValidatorStatus :: ValidatorStatus
  AccumulatedRewardsWei :: int
  PendingRewardsWei :: int
  CollateralWei :: int
  val_WithdrawalAddress :: string
  val_ValidatorIndex :: uint64
  val_ValidatorKey :: string
  ValidatorProposedBlocks :: "Block list"
  ValidatorMissedBlocks :: "Block list"
  ValidatorWrongFeeBlocks :: "Block list"

text \<open>
  The beacon-chain validator attached to an event (\<^verbatim>\<open>*v1.Validator\<close>): its index and
  its beacon state.
\<close>

datatype ValidatorState =
  ValidatorStateUnknown
  | ValidatorStatePendingInitialized
  | ValidatorStatePendingQueued
  | ValidatorStateActiveOngoing
  | ValidatorStateActiveExiting
  | ValidatorStateActiveSlashed
  | ValidatorStateExitedUnslashed
  | ValidatorStateExitedSlashed
  | ValidatorStateWithdrawalPossible
  | ValidatorStateWithdrawalDone

record BeaconValidator =
  bv_Index :: uint64
  bv_Status :: ValidatorState

text \<open>
  \<^verbatim>\<open>oracle.Subscription\<close>: the contract event (\<^verbatim>\<open>ValidatorID\<close>,
  \<^verbatim>\<open>SubscriptionCollateral\<close>, \<^verbatim>\<open>Sender\<close>, and from \<^verbatim>\<open>Raw\<close> the block number and
  the index of the log within its block) and the beacon validator. \<open>sub_Sender\<close> holds
  \<^verbatim>\<open>Event.Sender.String()\<close>, the only way the sender is read.
\<close>

record Subscription =
  sub_ValidatorID :: uint64
  SubscriptionCollateral :: int
  sub_Sender :: string
  sub_BlockNumber :: uint64
  sub_Index :: nat
  sub_Validator :: BeaconValidator

record Unsubscription =
  unsub_ValidatorID :: uint64
  unsub_Sender :: string
  unsub_BlockNumber :: uint64
  unsub_Index :: nat
  unsub_Validator :: BeaconValidator

record Donation =
  don_Sender :: string
  AmountWei :: int
  don_BlockNumber :: uint64

text \<open>The fields of the configuration that the code below reads.\<close>

record Config =
  CollateralInWei :: int
  DeployedSlot :: uint64
  CheckPointSizeInSlots :: uint64
  DryRun :: bool

text \<open>
  \<^verbatim>\<open>log.Fatal\<close> ends the process, a run-time panic too; a returned Go \<^verbatim>\<open>error\<close>
  is a value. All are results on the left of a sum.
\<close>

datatype error =
  Fatal string
  | Panic string
  | SlotMismatch uint64 uint64

section \<open>Address comparison (api.go)\<close>

text \<open>
  \<^verbatim>\<open>AreAddressEqual\<close> compares with \<^verbatim>\<open>strings.ToLower\<close> of the Go library. On a
  string of ASCII bytes that function moves the letters \<open>A\<close> to \<open>Z\<close> to \<open>a\<close> to \<open>z\<close>
  and keeps every other byte. On any other string it is \<^verbatim>\<open>strings.Map\<close> of
  \<^verbatim>\<open>unicode.ToLower\<close>: the string is read as UTF-8, rune after rune, a byte that starts
  no valid encoding being read as the rune U+FFFD; every rune is replaced by its lower
  case and written back in UTF-8. The lower case of a rune above ASCII comes from the
  table \<^verbatim>\<open>unicode.CaseRanges\<close>, which is a parameter here. Bytes and runes are integers.
\<close>

definition lower_byte :: "char \<Rightarrow> char" where
  "lower_byte c =
     (if CHR ''A'' \<le> c \<and> c \<le> CHR ''Z'' then char_of (of_char c + (32 :: nat)) else c)"

definition isASCII :: "string \<Rightarrow> bool" where
  "isASCII s \<longleftrightarrow> (\<forall>c \<in> set s. of_char c < (0x80 :: int))"

definition RuneError :: int where
  "RuneError = 0xFFFD"

definition continuation :: "int \<Rightarrow> bool" where
  "continuation b \<longleftrightarrow> 0x80 \<le> b \<and> b \<le> 0xBF"

text \<open>The second byte that may follow the first byte of a three-byte or four-byte encoding.\<close>

definition second3 :: "int \<Rightarrow> int \<Rightarrow> bool" where
  "second3 b0 b1 \<longleftrightarrow>
     (if b0 = 0xE0 then 0xA0 \<le> b1 \<and> b1 \<le> 0xBF
      else if b0 = 0xED then 0x80 \<le> b1 \<and> b1 \<le> 0x9F
      else continuation b1)"

definition second4 :: "int \<Rightarrow> int \<Rightarrow> bool" where
  "second4 b0 b1 \<longleftrightarrow>
     (if b0 = 0xF0 then 0x90 \<le> b1 \<and> b1 \<le> 0xBF
      else if b0 = 0xF4 then 0x80 \<le> b1 \<and> b1 \<le> 0x8F
      else continuation b1)"

text \<open>\<^verbatim>\<open>utf8.DecodeRuneInString\<close>: the first rune of the bytes and its width.\<close>

fun DecodeRune :: "int list \<Rightarrow> int \<times> nat" where
  "DecodeRune [] = (RuneError, 0)"
| "DecodeRune (b0 # bs) =
     (if b0 < 0x80 then (b0, 1)
      else if 0xC2 \<le> b0 \<and> b0 \<le> 0xDF then
        (case bs of
           b1 # _ \<Rightarrow>
             if continuation b1 then (b0 mod 32 * 64 + b1 mod 64, 2) else (RuneError, 1)
         | _ \<Rightarrow> (RuneError, 1))
      else if 0xE0 \<le> b0 \<and> b0 \<le> 0xEF then
        (case bs of
           b1 # b2 # _ \<Rightarrow>
             if second3 b0 b1 \<and> continuation b2
             then (b0 mod 16 * 4096 + b1 mod 64 * 64 + b2 mod 64, 3) else (RuneError, 1)
         | _ \<Rightarrow> (RuneError, 1))
      else if 0xF0 \<le> b0 \<and> b0 \<le> 0xF4 then
        (case bs of
           b1 # b2 # b3 # _ \<Rightarrow>
             if second4 b0 b1 \<and> continuation b2 \<and> continuation b3
             then (b0 mod 8 * 262144 + b1 mod 64 * 4096 + b2 mod 64 * 64 + b3 mod 64, 4)
             else (RuneError, 1)
         | _ \<Rightarrow> (RuneError, 1))
      else (RuneError, 1))"

text \<open>The runes a \<^verbatim>\<open>range\<close> loop over a string visits.\<close>

fun runes :: "int list \<Rightarrow> int list" where
  "runes [] = []"
| "runes (b # bs) =
     (case DecodeRune (b # bs) of (r, width) \<Rightarrow> r # runes (drop (width - 1) bs))"

text \<open>\<^verbatim>\<open>utf8.EncodeRune\<close>; a rune that is out of range or a surrogate is written as U+FFFD.\<close>

definition EncodeRune :: "int \<Rightarrow> int list" where
  "EncodeRune r =
     (if r < 0 \<or> 0x10FFFF < r \<or> (0xD800 \<le> r \<and> r \<le> 0xDFFF) then [0xEF, 0xBF, 0xBD]
      else if r < 0x80 then [r]
      else if r < 0x800 then [0xC0 + r div 64, 0x80 + r mod 64]
      else if r < 0x10000 then [0xE0 + r div 4096, 0x80 + r div 64 mod 64, 0x80 + r mod 64]
      else [0xF0 + r div 262144, 0x80 + r div 4096 mod 64, 0x80 + r div 64 mod 64,
            0x80 + r mod 64])"

text \<open>
  \<^verbatim>\<open>strings.Map\<close>: the runes of the string, mapped and encoded; a rune mapped to a
  negative value is dropped. (The library copies a rune that is valid and unchanged; its
  bytes are the encoding of the rune.)
\<close>

definition Map :: "(int \<Rightarrow> int) \<Rightarrow> string \<Rightarrow> string" where
  "Map mapping s =
     map char_of
       (concat (map (\<lambda>c. if mapping c < 0 then [] else EncodeRune (mapping c))
          (runes (map of_char s))))"

definition unicode_ToLower :: "(int \<Rightarrow> int) \<Rightarrow> int \<Rightarrow> int" where
  "unicode_ToLower CaseRanges r =
     (if r < 0x80 then (if 0x41 \<le> r \<and> r \<le> 0x5A then r + 32 else r) else CaseRanges r)"

definition ToLower :: "(int \<Rightarrow> int) \<Rightarrow> string \<Rightarrow> string" where
  "ToLower CaseRanges s =
     (if isASCII s then map lower_byte s else Map (unicode_ToLower CaseRanges) s)"

definition AreAddressEqual :: "(int \<Rightarrow> int) \<Rightarrow> string \<Rightarrow> string \<Rightarrow> error + bool" where
  "AreAddressEqual CaseRanges address1 address2 =
     (if length address1 \<noteq> length address2
      then Inl (Fatal ''address length mismatch'')
      else if ToLower CaseRanges address1 = ToLower CaseRanges address2 then Inr True
      else Inr False)"

section \<open>The non-finalized overlay (api.go)\<close>

type_synonym validator_map = "uint64 \<rightharpoonup> ValidatorInfo"

text \<open>A \<^verbatim>\<open>for ... range\<close> loop whose body may end the process.\<close>

fun forEach :: "('a \<Rightarrow> 's \<Rightarrow> error + 's) \<Rightarrow> 'a list \<Rightarrow> 's \<Rightarrow> error + 's" where
  "forEach body [] s = Inr s"
| "forEach body (x # xs) s =
     (case body x s of Inl e \<Rightarrow> Inl e | Inr s' \<Rightarrow> forEach body xs s')"

definition GetSubInBlock :: "Subscription list \<Rightarrow> uint64 \<Rightarrow> Subscription list" where
  "GetSubInBlock subs block = filter (\<lambda>sub. sub_BlockNumber sub = block) subs"

definition GetUnsubInBlock :: "Unsubscription list \<Rightarrow> uint64 \<Rightarrow> Unsubscription list" where
  "GetUnsubInBlock subs block = filter (\<lambda>unsub. unsub_BlockNumber unsub = block) subs"

text \<open>The two loops that collect the block numbers of the events, each once.\<close>

definition appendBlock :: "uint64 list \<Rightarrow> uint64 \<Rightarrow> uint64 list" where
  "appendBlock eventsBlocksList block =
     (if block \<in> set eventsBlocksList then eventsBlocksList else eventsBlocksList @ [block])"

definition eventsBlocksList :: "Subscription list \<Rightarrow> Unsubscription list \<Rightarrow> uint64 list" where
  "eventsBlocksList subs unsubs =
     foldl appendBlock (foldl appendBlock [] (map sub_BlockNumber subs))
       (map unsub_BlockNumber unsubs)"

text \<open>The body of the loop over the subscriptions of one block.\<close>

definition applySubscription ::
  "(int \<Rightarrow> int) \<Rightarrow> Config \<Rightarrow> (BeaconValidator \<Rightarrow> bool) \<Rightarrow> Subscription \<Rightarrow> validator_map
     \<Rightarrow> error + validator_map"
where
  "applySubscription CaseRanges config CanValidatorSubscribeToPool subInBlock validators =
     (let valIndex = sub_ValidatorID subInBlock in
      case validators valIndex of
        None \<Rightarrow> Inr validators
      | Some val \<Rightarrow>
          (case AreAddressEqual CaseRanges (val_WithdrawalAddress val) (sub_Sender subInBlock) of
             Inl e \<Rightarrow> Inl e
           | Inr eq \<Rightarrow>
               if eq
                  \<and> CollateralInWei config \<le> SubscriptionCollateral subInBlock
                  \<and> CanValidatorSubscribeToPool (sub_Validator subInBlock)
                  \<and> (ValidatorStatus val = Untracked \<or> ValidatorStatus val = NotSubscribed)
               then Inr (validators(valIndex \<mapsto>
                      val\<lparr>ValidatorStatus := Active,
                          PendingRewardsWei :=
                            PendingRewardsWei val + SubscriptionCollateral subInBlock\<rparr>))
               else Inr validators))"

text \<open>The body of the loop over the unsubscriptions of one block.\<close>

definition applyUnsubscription ::
  "(int \<Rightarrow> int) \<Rightarrow> Unsubscription \<Rightarrow> validator_map \<Rightarrow> error + validator_map"
where
  "applyUnsubscription CaseRanges unsubInBlock validators =
     (let valIndex = unsub_ValidatorID unsubInBlock in
      case validators valIndex of
        None \<Rightarrow> Inr validators
      | Some val \<Rightarrow>
          (case AreAddressEqual CaseRanges (val_WithdrawalAddress val)
                  (unsub_Sender unsubInBlock) of
             Inl e \<Rightarrow> Inl e
           | Inr eq \<Rightarrow>
               if eq
                  \<and> (ValidatorStatus val = Active \<or> ValidatorStatus val = YellowCard
                      \<or> ValidatorStatus val = RedCard)
               then Inr (validators(valIndex \<mapsto>
                      val\<lparr>ValidatorStatus := NotSubscribed, PendingRewardsWei := 0\<rparr>))
               else Inr validators))"

text \<open>The body of the loop over the sorted block numbers.\<close>

definition applyBlock ::
  "(int \<Rightarrow> int) \<Rightarrow> Config \<Rightarrow> (BeaconValidator \<Rightarrow> bool) \<Rightarrow> Subscription list \<Rightarrow> Unsubscription list
     \<Rightarrow> uint64 \<Rightarrow> validator_map \<Rightarrow> error + validator_map"
where
  "applyBlock CaseRanges config CanValidatorSubscribeToPool subs unsubs block validators =
     (let blockSub = GetSubInBlock subs block;
          blockUnsub = GetUnsubInBlock unsubs block
      in case forEach (applySubscription CaseRanges config CanValidatorSubscribeToPool) blockSub
                validators of
           Inl e \<Rightarrow> Inl e
         | Inr validators' \<Rightarrow> forEach (applyUnsubscription CaseRanges) blockUnsub validators')"

text \<open>
  \<^verbatim>\<open>ApplyNonFinalizedState\<close>. The map is updated in place in the source; here the
  updated map is the result. \<^verbatim>\<open>oracle.CanValidatorSubscribeToPool\<close> is a parameter, as is
  the case table of the library that the comparison of addresses reads.
\<close>

definition ApplyNonFinalizedState ::
  "(int \<Rightarrow> int) \<Rightarrow> Config \<Rightarrow> (BeaconValidator \<Rightarrow> bool) \<Rightarrow> Subscription list \<Rightarrow> Unsubscription list
     \<Rightarrow> validator_map \<Rightarrow> error + validator_map"
where
  "ApplyNonFinalizedState CaseRanges config CanValidatorSubscribeToPool subs unsubs validators =
     forEach (applyBlock CaseRanges config CanValidatorSubscribeToPool subs unsubs)
       (sort (eventsBlocksList subs unsubs)) validators"

text \<open>
  The events of both lists as one type, to speak of the order in which they are applied.
\<close>

datatype Event = SubscriptionEvent Subscription | UnsubscriptionEvent Unsubscription

fun event_BlockNumber :: "Event \<Rightarrow> uint64" where
  "event_BlockNumber (SubscriptionEvent sub) = sub_BlockNumber sub"
| "event_BlockNumber (UnsubscriptionEvent unsub) = unsub_BlockNumber unsub"

fun event_Index :: "Event \<Rightarrow> nat" where
  "event_Index (SubscriptionEvent sub) = sub_Index sub"
| "event_Index (UnsubscriptionEvent unsub) = unsub_Index unsub"

fun event_ValidatorID :: "Event \<Rightarrow> uint64" where
  "event_ValidatorID (SubscriptionEvent sub) = sub_ValidatorID sub"
| "event_ValidatorID (UnsubscriptionEvent unsub) = unsub_ValidatorID unsub"

fun isUnsubscription :: "Event \<Rightarrow> bool" where
  "isUnsubscription (SubscriptionEvent sub) = False"
| "isUnsubscription (UnsubscriptionEvent unsub) = True"

fun applyEvent ::
  "(int \<Rightarrow> int) \<Rightarrow> Config \<Rightarrow> (BeaconValidator \<Rightarrow> bool) \<Rightarrow> Event \<Rightarrow> validator_map
     \<Rightarrow> error + validator_map"
where
  "applyEvent tbl config can (SubscriptionEvent sub) validators =
     applySubscription tbl config can sub validators"
| "applyEvent tbl config can (UnsubscriptionEvent unsub) validators =
     applyUnsubscription tbl unsub validators"

definition allEvents :: "Subscription list \<Rightarrow> Unsubscription list \<Rightarrow> Event list" where
  "allEvents subs unsubs = map SubscriptionEvent subs @ map UnsubscriptionEvent unsubs"

text \<open>
  The replay the specification describes: every event, one at a time, ordered by block
  number and then by its index within the block.
\<close>

definition replayInLogOrder ::
  "(int \<Rightarrow> int) \<Rightarrow> Config \<Rightarrow> (BeaconValidator \<Rightarrow> bool) \<Rightarrow> Subscription list \<Rightarrow> Unsubscription list
     \<Rightarrow> validator_map \<Rightarrow> error + validator_map"
where
  "replayInLogOrder tbl config can subs unsubs validators =
     forEach (applyEvent tbl config can)
       (sort_key (\<lambda>ev. (event_BlockNumber ev, event_Index ev)) (allEvents subs unsubs))
       validators"

text \<open>
  The order of the code: by block number, within a block the subscriptions before the
  unsubscriptions, and among events of one kind in one block the order of the input list
  (the sort is stable).
\<close>

definition overlayKey :: "Event \<Rightarrow> uint64 \<times> bool" where
  "overlayKey ev = (event_BlockNumber ev, isUnsubscription ev)"

definition overlayOrder :: "Subscription list \<Rightarrow> Unsubscription list \<Rightarrow> Event list" where
  "overlayOrder subs unsubs = sort_key overlayKey (allEvents subs unsubs)"

definition blockEvents :: "Subscription list \<Rightarrow> Unsubscription list \<Rightarrow> uint64 \<Rightarrow> Event list" where
  "blockEvents subs unsubs block =
     map SubscriptionEvent (GetSubInBlock subs block)
     @ map UnsubscriptionEvent (GetUnsubInBlock unsubs block)"

text \<open>
  When a subscription is taken for an entry of the map: the sender is the withdrawal address
  of the entry up to the case of letters, the collateral reaches the configured one, the
  beacon validator can subscribe, and the entry is untracked or not subscribed.
\<close>

definition subscriptionAccepted ::
  "(int \<Rightarrow> int) \<Rightarrow> Config \<Rightarrow> (BeaconValidator \<Rightarrow> bool) \<Rightarrow> Subscription \<Rightarrow> ValidatorInfo
     \<Rightarrow> bool"
where
  "subscriptionAccepted tbl config can sub val \<longleftrightarrow>
     ToLower tbl (val_WithdrawalAddress val) = ToLower tbl (sub_Sender sub)
     \<and> CollateralInWei config \<le> SubscriptionCollateral sub
     \<and> can (sub_Validator sub)
     \<and> (ValidatorStatus val = Untracked \<or> ValidatorStatus val = NotSubscribed)"

text \<open>The keys of the events of the given blocks, in the order of the code.\<close>

definition blockKeys :: "uint64 list \<Rightarrow> (uint64 \<times> bool) list" where
  "blockKeys blocks = concat (map (\<lambda>b. [(b, False), (b, True)]) blocks)"

text \<open>What the overlay may change of an entry: its status and its pending rewards.\<close>

definition same_ledger :: "ValidatorInfo \<Rightarrow> ValidatorInfo \<Rightarrow> bool" where
  "same_ledger val val' \<longleftrightarrow>
     AccumulatedRewardsWei val' = AccumulatedRewardsWei val
     \<and> CollateralWei val' = CollateralWei val
     \<and> val_WithdrawalAddress val' = val_WithdrawalAddress val
     \<and> val_ValidatorIndex val' = val_ValidatorIndex val
     \<and> val_ValidatorKey val' = val_ValidatorKey val
     \<and> ValidatorProposedBlocks val' = ValidatorProposedBlocks val
     \<and> ValidatorMissedBlocks val' = ValidatorMissedBlocks val
     \<and> ValidatorWrongFeeBlocks val' = ValidatorWrongFeeBlocks val"

definition overlay_of :: "validator_map \<Rightarrow> validator_map \<Rightarrow> bool" where
  "overlay_of validators validators' \<longleftrightarrow>
     (\<forall>valIndex. case validators valIndex of
        None \<Rightarrow> validators' valIndex = None
      | Some val \<Rightarrow> (\<exists>val'. validators' valIndex = Some val' \<and> same_ledger val val'))"

section \<open>The per-slot step (oracle package)\<close>

text \<open>
  Modelled from the spec: the declaration of \<^verbatim>\<open>OracleState\<close> is not among the sources;
  its fields are the global state of section 3 of the specification, under the names the
  code and its tests use (\<^verbatim>\<open>State.LatestSlot\<close>, \<^verbatim>\<open>State.Validators\<close>,
  \<^verbatim>\<open>State.PoolAccumulatedFees\<close>). The validators are kept as the list of the entries of
  the Go map, in the order a \<^verbatim>\<open>range\<close> loop visits them.
\<close>

record OracleState =
  Validators :: "(uint64 \<times> ValidatorInfo) list"
  PoolAccumulatedFees :: int
  PoolFeesPercent :: int
  PoolFeesAddress :: string
  LatestSlot :: uint64
  LatestProcessedBlock :: uint64
  ProposedBlocks :: "Block list"
  MissedBlocks :: "Block list"
  WrongFeeBlocks :: "Block list"
  Donations :: "Donation list"

text \<open>
  The methods of \<^verbatim>\<open>OracleState\<close> that \<^verbatim>\<open>AdvanceStateToNextSlot\<close> calls. Their code is
  not among the sources, so the step takes them as parameters and every property of the
  step below holds whatever they do.
\<close>

record StateMethods =
  HandleManualSubscriptions :: "int \<Rightarrow> Subscription list \<Rightarrow> OracleState \<Rightarrow> OracleState"
  IsValidatorSubscribed :: "uint64 \<Rightarrow> OracleState \<Rightarrow> bool"
  HandleMissedBlock :: "Block \<Rightarrow> OracleState \<Rightarrow> OracleState"
  HandleCorrectBlockProposal :: "Block \<Rightarrow> OracleState \<Rightarrow> OracleState"
  HandleBanValidator :: "Block \<Rightarrow> OracleState \<Rightarrow> OracleState"
  HandleManualUnsubscriptions :: "Unsubscription list \<Rightarrow> OracleState \<Rightarrow> OracleState"
  HandleDonations :: "Donation list \<Rightarrow> OracleState \<Rightarrow> OracleState"

text \<open>
  Modelled from the spec: \<^verbatim>\<open>SendRewardToPool\<close> is not among the sources; section 4.4 of
  the specification gives it as \<open>poolAccumulatedFees += amount\<close>.
\<close>

definition SendRewardToPool :: "int \<Rightarrow> OracleState \<Rightarrow> OracleState" where
  "SendRewardToPool reward s = s\<lparr>PoolAccumulatedFees := PoolAccumulatedFees s + reward\<rparr>"

definition validateParameters ::
  "Block \<Rightarrow> Subscription list \<Rightarrow> Unsubscription list \<Rightarrow> Donation list \<Rightarrow> OracleState
     \<Rightarrow> error option"
where
  "validateParameters blockPool blockSubs blockUnsubs blockDonations s =
     (if Slot blockPool \<noteq> LatestSlot s
      then Some (SlotMismatch (Slot blockPool) (LatestSlot s))
      else None)"

text \<open>
  \<^verbatim>\<open>AdvanceStateToNextSlot\<close>: the result is what the function returns (the error, or the
  processed slot) together with the oracle state it leaves behind.
\<close>

definition AdvanceStateToNextSlot ::
  "StateMethods \<Rightarrow> Config \<Rightarrow> Block \<Rightarrow> Subscription list \<Rightarrow> Unsubscription list
     \<Rightarrow> Donation list \<Rightarrow> OracleState \<Rightarrow> (error + uint64) \<times> OracleState"
where
  "AdvanceStateToNextSlot st cfg blockPool blockSubs blockUnsubs blockDonations s =
     (case validateParameters blockPool blockSubs blockUnsubs blockDonations s of
        Some err \<Rightarrow> (Inl err, s)
      | None \<Rightarrow>
          let s1 = HandleManualSubscriptions st (CollateralInWei cfg) blockSubs s;
              s2 = (if BlockType blockPool = MissedProposal
                       \<and> IsValidatorSubscribed st (ValidatorIndex blockPool) s1
                    then HandleMissedBlock st blockPool s1 else s1);
              s3 = (if BlockType blockPool \<noteq> MissedProposal then
                      let a = (if BlockType blockPool = OkPoolProposalBlsKeys
                               then SendRewardToPool (Reward blockPool) s2 else s2);
                          b = (if BlockType blockPool = OkPoolProposal
                               then HandleCorrectBlockProposal st blockPool a else a)
                      in if BlockType blockPool = WrongFeeRecipient
                            \<and> IsValidatorSubscribed st (ValidatorIndex blockPool) b
                         then HandleBanValidator st blockPool b else b
                    else s2);
              s4 = HandleManualUnsubscriptions st blockUnsubs s3;
              s5 = HandleDonations st blockDonations s4;
              processedSlot = LatestSlot s5
          in (Inr processedSlot, s5\<lparr>LatestSlot := LatestSlot s5 + 1\<rparr>))"

section \<open>Leaves of the Merkle tree\<close>

record RawLeaf =
  DepositAddress :: string
  AccumulatedBalance :: int

text \<open>
  Modelled from the spec: \<^verbatim>\<open>AggregateValidatorsIndexes\<close> and
  \<^verbatim>\<open>OrderByDepositAddress\<close> are not among the sources (only their tests are). Section
  4.7 of the specification gives the construction: a leaf per validator with its
  withdrawal address and accumulated rewards, the leaf of the pool fees put in front,
  leaves of one address merged by adding their balances, and the result sorted by address,
  bytewise ascending. Every validator of the state gets a leaf: the tests build leaves
  from validators that carry no status, and the sum of the leaves is to be the sum of the
  accumulated rewards of the validators and the pool fees (section 8).
\<close>

definition validatorLeaf :: "ValidatorInfo \<Rightarrow> RawLeaf" where
  "validatorLeaf val =
     \<lparr>DepositAddress = val_WithdrawalAddress val,
      AccumulatedBalance = AccumulatedRewardsWei val\<rparr>"

definition poolFeesLeaf :: "OracleState \<Rightarrow> RawLeaf" where
  "poolFeesLeaf state =
     \<lparr>DepositAddress = PoolFeesAddress state, AccumulatedBalance = PoolAccumulatedFees state\<rparr>"

definition addLeaf :: "RawLeaf list \<Rightarrow> RawLeaf \<Rightarrow> RawLeaf list" where
  "addLeaf allLeafs leaf =
     (if DepositAddress leaf \<in> DepositAddress ` set allLeafs
      then map (\<lambda>l. if DepositAddress l = DepositAddress leaf
                     then l\<lparr>AccumulatedBalance := AccumulatedBalance l + AccumulatedBalance leaf\<rparr>
                     else l) allLeafs
      else allLeafs @ [leaf])"

definition aggregateLeaves :: "RawLeaf list \<Rightarrow> RawLeaf list" where
  "aggregateLeaves leaves = foldl addLeaf [] leaves"

definition OrderByDepositAddress :: "RawLeaf list \<Rightarrow> RawLeaf list" where
  "OrderByDepositAddress leafs = sort_key DepositAddress leafs"

definition AggregateValidatorsIndexes :: "OracleState \<Rightarrow> RawLeaf list" where
  "AggregateValidatorsIndexes state =
     OrderByDepositAddress
       (aggregateLeaves (poolFeesLeaf state # map validatorLeaf (map snd (Validators state))))"

text \<open>The sum of the balances of the leaves of one address.\<close>

definition balanceOf :: "string \<Rightarrow> RawLeaf list \<Rightarrow> int" where
  "balanceOf address leaves =
     sum_list (map AccumulatedBalance (filter (\<lambda>l. DepositAddress l = address) leaves))"

section \<open>The main loop of the driver\<close>

text \<open>
  One pass through the body of the \<^verbatim>\<open>for\<close> loop of \<^verbatim>\<open>mainLoop\<close>. What the consensus
  node answers in that pass is the input: \<^verbatim>\<open>NodeSyncing\<close> fails or tells whether the node
  is syncing, \<^verbatim>\<open>Finality\<close> fails or gives the finalized epoch.
  \<^verbatim>\<open>AdvanceStateToNextEpoch\<close> and \<^verbatim>\<open>DumpOracleStateToDatabase\<close> are not among the
  sources: the first is a parameter that gives the slot of the state after the call, or an
  error; of the second only whether it fails is a parameter.
\<close>

datatype 'a answer = Failed | Answer 'a

record NodeAnswers =
  NodeSyncing :: "bool answer"
  Finality :: "uint64 answer"

definition SlotsInEpoch :: uint64 where
  "SlotsInEpoch = 32"

text \<open>
  What a pass did: the slot of the state after it, whether it advanced the state, whether
  it dumped the state and published the root (the checkpoint), and whether it ended the
  process.
\<close>

record Pass =
  slotAfter :: uint64
  advanced :: bool
  checkpoint :: bool
  ended :: "error option"

definition checkpointStep :: "Config \<Rightarrow> (uint64 \<Rightarrow> bool) \<Rightarrow> uint64 \<Rightarrow> bool \<Rightarrow> Pass" where
  "checkpointStep cfg dumpFails slot adv =
     (if CheckPointSizeInSlots cfg = 0
      then \<lparr>slotAfter = slot, advanced = adv, checkpoint = False,
            ended = Some (Panic ''integer divide by zero'')\<rparr>
      else if (slot - DeployedSlot cfg) mod CheckPointSizeInSlots cfg = 0
      then \<lparr>slotAfter = slot, advanced = adv, checkpoint = True,
            ended = (if dumpFails slot
                     then Some (Fatal ''Failed dumping oracle state to db'') else None)\<rparr>
      else \<lparr>slotAfter = slot, advanced = adv, checkpoint = False, ended = None\<rparr>)"

definition mainLoopPass ::
  "Config \<Rightarrow> (uint64 \<Rightarrow> error + uint64) \<Rightarrow> (uint64 \<Rightarrow> bool) \<Rightarrow> NodeAnswers \<Rightarrow> uint64 \<Rightarrow> Pass"
where
  "mainLoopPass cfg AdvanceStateToNextEpoch dumpFails node slot =
     (let idle = \<lparr>slotAfter = slot, advanced = False, checkpoint = False, ended = None\<rparr> in
      case NodeSyncing node of
        Failed \<Rightarrow> idle
      | Answer isSyncing \<Rightarrow>
          if isSyncing then idle
          else (case Finality node of
                  Failed \<Rightarrow> idle
                | Answer finalizedEpoch \<Rightarrow>
                    let finalizedSlot = finalizedEpoch * SlotsInEpoch in
                    if finalizedSlot > slot
                    then (case AdvanceStateToNextEpoch slot of
                            Inl err \<Rightarrow> idle\<lparr>ended := Some err\<rparr>
                          | Inr slot' \<Rightarrow> checkpointStep cfg dumpFails slot' True)
                    else checkpointStep cfg dumpFails slot False))"

text \<open>
  The loop never returns; its passes over a finite list of answers of the node are a
  prefix of its run, cut where a pass ends the process.
\<close>

fun mainLoop ::
  "Config \<Rightarrow> (uint64 \<Rightarrow> error + uint64) \<Rightarrow> (uint64 \<Rightarrow> bool) \<Rightarrow> NodeAnswers list \<Rightarrow> uint64
     \<Rightarrow> Pass list"
where
  "mainLoop cfg adv dumpFails [] slot = []"
| "mainLoop cfg adv dumpFails (node # nodes) slot =
     (let p = mainLoopPass cfg adv dumpFails node slot in
      if ended p = None then p # mainLoop cfg adv dumpFails nodes (slotAfter p) else [p])"

text \<open>
  The rule of section 4.7 of the specification for the same passes: a checkpoint after a
  pass exactly when the processed slots since the deployment are a multiple of the
  checkpoint size and a slot was processed since the previous checkpoint. The flag carried
  along tells whether a slot was processed since the previous checkpoint.
\<close>

fun checkpointsDue :: "Config \<Rightarrow> bool \<Rightarrow> Pass list \<Rightarrow> bool list" where
  "checkpointsDue cfg sinceLast [] = []"
| "checkpointsDue cfg sinceLast (p # ps) =
     (let processed = sinceLast \<or> advanced p;
          due = ((slotAfter p - DeployedSlot cfg) mod CheckPointSizeInSlots cfg = 0 \<and> processed)
      in due # checkpointsDue cfg (processed \<and> \<not> due) ps)"

section \<open>Concrete inputs\<close>

text \<open>
  Inputs on which the definitions above are run further down: the configuration and the
  address of the tests of the overlay, a validator with that withdrawal address, and
  events sent from that address (written with capitals, as a checksummed address may be).
\<close>

definition exampleConfig :: Config where
  "exampleConfig =
     \<lparr>CollateralInWei = 1000, DeployedSlot = 100, CheckPointSizeInSlots = 10, DryRun = True\<rparr>"

text \<open>
  A case table for running the code: the part of \<^verbatim>\<open>unicode.CaseRanges\<close> for the runes
  U+0080 to U+00FF, where the capital letters U+00C0 to U+00DE (but the sign U+00D7) lie
  32 below their small letters; other runes are left as they are.
\<close>

definition latin1CaseRanges :: "int \<Rightarrow> int" where
  "latin1CaseRanges r =
     (if (0xC0 \<le> r \<and> r \<le> 0xD6) \<or> (0xD8 \<le> r \<and> r \<le> 0xDE) then r + 32 else r)"

definition activeOngoing :: "BeaconValidator \<Rightarrow> bool" where
  "activeOngoing v \<longleftrightarrow> bv_Status v = ValidatorStateActiveOngoing"

definition exampleAddress :: string where
  "exampleAddress = ''0x9427a30991170f917d7b83def6e44d26577871ed''"

definition exampleSender :: string where
  "exampleSender = ''0x9427A30991170F917D7B83DEF6E44D26577871ED''"

definition exampleValidator :: "ValidatorStatus \<Rightarrow> int \<Rightarrow> ValidatorInfo" where
  "exampleValidator status pending =
     \<lparr>ValidatorStatus = status, AccumulatedRewardsWei = 77, PendingRewardsWei = pending,
      CollateralWei = 1000, val_WithdrawalAddress = exampleAddress, val_ValidatorIndex = 5,
      val_ValidatorKey = ''0xkey'', ValidatorProposedBlocks = [], ValidatorMissedBlocks = [],
      ValidatorWrongFeeBlocks = []\<rparr>"

definition exampleSubscription :: "uint64 \<Rightarrow> uint64 \<Rightarrow> nat \<Rightarrow> Subscription" where
  "exampleSubscription valIndex block i =
     \<lparr>sub_ValidatorID = valIndex, SubscriptionCollateral = 1000, sub_Sender = exampleSender,
      sub_BlockNumber = block, sub_Index = i,
      sub_Validator = \<lparr>bv_Index = valIndex, bv_Status = ValidatorStateActiveOngoing\<rparr>\<rparr>"

definition exampleUnsubscription :: "uint64 \<Rightarrow> uint64 \<Rightarrow> nat \<Rightarrow> Unsubscription" where
  "exampleUnsubscription valIndex block i =
     \<lparr>unsub_ValidatorID = valIndex, unsub_Sender = exampleSender,
      unsub_BlockNumber = block, unsub_Index = i,
      unsub_Validator = \<lparr>bv_Index = valIndex, bv_Status = ValidatorStateActiveOngoing\<rparr>\<rparr>"

text \<open>
  For the per-slot step: an oracle state at slot 7, a block of slot 7 of each type, and
  stand-ins for the methods of the state that show the order of their calls, each writing
  its own digit after the decimal digits of the accumulated fees.
\<close>

definition exampleState :: OracleState where
  "exampleState =
     \<lparr>Validators = [], PoolAccumulatedFees = 0, PoolFeesPercent = 0,
      PoolFeesAddress = ''0x0000000000000000000000000000000000000000'',
      LatestSlot = 7,
      LatestProcessedBlock = 0, ProposedBlocks = [], MissedBlocks = [], WrongFeeBlocks = [],
      Donations = []\<rparr>"

definition exampleBlock :: "uint64 \<Rightarrow> BlockType \<Rightarrow> Block" where
  "exampleBlock slot blockType =
     \<lparr>Slot = slot, BlockNumber = 0, ValidatorIndex = 5, ValidatorKey = ''0xkey'',
      BlockType = blockType, Reward = 3, WithdrawalAddress = exampleAddress\<rparr>"

definition writeDigit :: "int \<Rightarrow> OracleState \<Rightarrow> OracleState" where
  "writeDigit d s = s\<lparr>PoolAccumulatedFees := 10 * PoolAccumulatedFees s + d\<rparr>"

definition exampleMethods :: StateMethods where
  "exampleMethods =
     \<lparr>HandleManualSubscriptions = (\<lambda>collateral subs. writeDigit 1),
      IsValidatorSubscribed = (\<lambda>valIndex s. True),
      HandleMissedBlock = (\<lambda>block. writeDigit 2),
      HandleCorrectBlockProposal = (\<lambda>block. writeDigit 4),
      HandleBanValidator = (\<lambda>block. writeDigit 5),
      HandleManualUnsubscriptions = (\<lambda>unsubs. writeDigit 6),
      HandleDonations = (\<lambda>donations. writeDigit 7)\<rparr>"

text \<open>Methods that leave the state as it is, as in a slot with nothing to handle.\<close>

definition idleMethods :: StateMethods where
  "idleMethods =
     \<lparr>HandleManualSubscriptions = (\<lambda>collateral subs s. s),
      IsValidatorSubscribed = (\<lambda>valIndex s. False),
      HandleMissedBlock = (\<lambda>block s. s),
      HandleCorrectBlockProposal = (\<lambda>block s. s),
      HandleBanValidator = (\<lambda>block s. s),
      HandleManualUnsubscriptions = (\<lambda>unsubs s. s),
      HandleDonations = (\<lambda>donations s. s)\<rparr>"

text \<open>
  For the main loop: a node in sync whose finalized epoch is 5 (slot 160), a dump that
  never fails, and an advance of one slot.
\<close>

definition nodeAtEpoch5 :: NodeAnswers where
  "nodeAtEpoch5 = \<lparr>NodeSyncing = Answer False, Finality = Answer 5\<rparr>"

definition dumpSucceeds :: "uint64 \<Rightarrow> bool" where
  "dumpSucceeds slot = False"

definition advanceOneSlot :: "uint64 \<Rightarrow> error + uint64" where
  "advanceOneSlot slot = Inr (slot + 1)"






section \<open>Address comparison: properties\<close>

lemma ToLower_ASCII: "isASCII s \<Longrightarrow> ToLower tbl s = map lower_byte s"
  by (simp add: ToLower_def)

text \<open>Two bytes that start no encoding are both read as U+FFFD, whatever the case table.\<close>

lemma AreAddressEqual_invalid_bytes: "AreAddressEqual tbl [CHR 0xFF] [CHR 0xFE] = Inr True"
  by (simp add: AreAddressEqual_def ToLower_def isASCII_def Map_def RuneError_def)

text \<open>
  Claim C9, as amended. On two ASCII strings of the same length \<^verbatim>\<open>AreAddressEqual\<close>
  returns true exactly when the strings are equal after lowercasing their ASCII letters.
  On two strings of the same length, ASCII or not, it returns whether their lower cases
  by \<^verbatim>\<open>strings.ToLower\<close> are equal. On two strings of different lengths it returns
  nothing: the fatal log ends the process. So a returned \<open>false\<close> never comes from a
  difference in length. This holds for every case table.
\<close>

theorem AreAddressEqual_spec:
  "(length a = length b \<and> isASCII a \<and> isASCII b \<longrightarrow>
      AreAddressEqual tbl a b = Inr (map lower_byte a = map lower_byte b))
   \<and> (length a = length b \<longrightarrow> AreAddressEqual tbl a b = Inr (ToLower tbl a = ToLower tbl b))
   \<and> (length a \<noteq> length b \<longrightarrow> (\<exists>msg. AreAddressEqual tbl a b = Inl (Fatal msg)))
   \<and> (AreAddressEqual tbl a b = Inr False \<longrightarrow> length a = length b)"
  by (simp add: AreAddressEqual_def ToLower_ASCII)

theorem AreAddressEqual_spec_witness:
  "length ''0xAb'' = length ''0xaB'' \<and> isASCII ''0xAb'' \<and> isASCII ''0xaB''
   \<and> AreAddressEqual latin1CaseRanges ''0xAb'' ''0xaB'' = Inr True
   \<and> length ''0xAb'' \<noteq> length ''0xabc''
   \<and> (\<exists>msg. AreAddressEqual latin1CaseRanges ''0xAb'' ''0xabc'' = Inl (Fatal msg))
   \<and> AreAddressEqual latin1CaseRanges ''0xAb'' ''0xaC'' = Inr False"
proof -
  have ascii: "isASCII ''0xAb''" "isASCII ''0xaB''" "isASCII ''0xaC''"
    by code_simp+
  have same: "map lower_byte ''0xAb'' = map lower_byte ''0xaB''"
    by code_simp
  have other: "map lower_byte ''0xAb'' \<noteq> map lower_byte ''0xaC''"
    by code_simp
  show ?thesis
    using AreAddressEqual_spec [of "''0xAb''" "''0xaB''" latin1CaseRanges]
      AreAddressEqual_spec [of "''0xAb''" "''0xabc''" latin1CaseRanges]
      AreAddressEqual_spec [of "''0xAb''" "''0xaC''" latin1CaseRanges] ascii same other
    by simp
qed

text \<open>
  Claim C9, as stated, fails on strings that are not ASCII. The two bytes of the capital
  letter U+00C9 and the two bytes of the small letter U+00E9 are not equal after
  lowercasing their ASCII letters, and the function returns true; so it does on the bytes
  \<open>0xFF\<close> and \<open>0xFE\<close>, both read as U+FFFD.
\<close>

theorem AreAddressEqual_not_ASCII_lowercasing:
  "length [CHR 0xC3, CHR 0x89] = length [CHR 0xC3, CHR 0xA9]
   \<and> map lower_byte [CHR 0xC3, CHR 0x89] \<noteq> map lower_byte [CHR 0xC3, CHR 0xA9]
   \<and> AreAddressEqual latin1CaseRanges [CHR 0xC3, CHR 0x89] [CHR 0xC3, CHR 0xA9] = Inr True
   \<and> length [CHR 0xFF] = length [CHR 0xFE]
   \<and> map lower_byte [CHR 0xFF] \<noteq> map lower_byte [CHR 0xFE]
   \<and> AreAddressEqual latin1CaseRanges [CHR 0xFF] [CHR 0xFE] = Inr True"
  by code_simp


section \<open>The overlay: frame\<close>

lemma same_ledger_refl: "same_ledger v v"
  by (simp add: same_ledger_def)

lemma same_ledger_trans: "same_ledger a b \<Longrightarrow> same_ledger b c \<Longrightarrow> same_ledger a c"
  by (simp add: same_ledger_def)

lemma overlay_of_refl: "overlay_of m m"
  by (simp add: overlay_of_def same_ledger_refl split: option.splits)

lemma overlay_of_trans:
  assumes "overlay_of a b" and "overlay_of b c"
  shows "overlay_of a c"
  unfolding overlay_of_def
proof
  fix k
  show "case a k of None \<Rightarrow> c k = None
        | Some val \<Rightarrow> \<exists>val'. c k = Some val' \<and> same_ledger val val'"
    using assms(1) [unfolded overlay_of_def, rule_format, of k]
      assms(2) [unfolded overlay_of_def, rule_format, of k]
    by (cases "a k") (fastforce intro: same_ledger_trans)+
qed

lemma overlay_of_upd:
  "m k = Some v \<Longrightarrow> same_ledger v v' \<Longrightarrow> overlay_of m (m(k \<mapsto> v'))"
  by (simp add: overlay_of_def same_ledger_refl split: option.splits)

lemma applySubscription_overlay:
  assumes "applySubscription tbl config can sub m = Inr m'"
  shows "overlay_of m m'"
proof (cases "m (sub_ValidatorID sub)")
  case None
  then show ?thesis
    using assms by (auto simp: applySubscription_def overlay_of_refl)
next
  case (Some val)
  then show ?thesis
    using assms
    by (auto simp: applySubscription_def overlay_of_refl same_ledger_def
        split: sum.splits if_splits intro!: overlay_of_upd)
qed

lemma applyUnsubscription_overlay:
  assumes "applyUnsubscription tbl unsub m = Inr m'"
  shows "overlay_of m m'"
proof (cases "m (unsub_ValidatorID unsub)")
  case None
  then show ?thesis
    using assms by (auto simp: applyUnsubscription_def overlay_of_refl)
next
  case (Some val)
  then show ?thesis
    using assms
    by (auto simp: applyUnsubscription_def overlay_of_refl same_ledger_def
        split: sum.splits if_splits intro!: overlay_of_upd)
qed

lemma forEach_overlay:
  assumes "\<And>x s s'. body x s = Inr s' \<Longrightarrow> overlay_of s s'"
  shows "forEach body xs m = Inr m' \<Longrightarrow> overlay_of m m'"
proof (induction xs arbitrary: m)
  case Nil
  then show ?case by (simp add: overlay_of_refl)
next
  case (Cons x xs)
  from Cons.prems obtain m1 where 1: "body x m = Inr m1" and 2: "forEach body xs m1 = Inr m'"
    by (auto split: sum.splits)
  show ?case
    using assms [OF 1] Cons.IH [OF 2] by (rule overlay_of_trans)
qed

lemma applyBlock_overlay:
  assumes "applyBlock tbl config can subs unsubs b m = Inr m'"
  shows "overlay_of m m'"
proof -
  from assms obtain m1 where
    1: "forEach (applySubscription tbl config can) (GetSubInBlock subs b) m = Inr m1" and
    2: "forEach (applyUnsubscription tbl) (GetUnsubInBlock unsubs b) m1 = Inr m'"
    by (auto simp: applyBlock_def Let_def split: sum.splits)
  have "overlay_of m m1"
    using applySubscription_overlay 1 by (rule forEach_overlay)
  moreover have "overlay_of m1 m'"
    using applyUnsubscription_overlay 2 by (rule forEach_overlay)
  ultimately show ?thesis by (rule overlay_of_trans)
qed

lemma ApplyNonFinalizedState_overlay:
  "ApplyNonFinalizedState tbl config can subs unsubs m = Inr m' \<Longrightarrow> overlay_of m m'"
  unfolding ApplyNonFinalizedState_def
  using applyBlock_overlay by (rule forEach_overlay)

lemma overlay_of_dom:
  assumes "overlay_of m m'"
  shows "dom m' = dom m"
proof (rule set_eqI)
  fix k
  show "k \<in> dom m' \<longleftrightarrow> k \<in> dom m"
    using assms [unfolded overlay_of_def, rule_format, of k]
    by (cases "m k") auto
qed

section \<open>The overlay: order of the replay\<close>

lemma forEach_append:
  "forEach body (xs @ ys) s =
     (case forEach body xs s of Inl e \<Rightarrow> Inl e | Inr s' \<Rightarrow> forEach body ys s')"
  by (induction xs arbitrary: s) (auto split: sum.splits)

lemma forEach_SubscriptionEvent:
  "forEach (applyEvent tbl config can) (map SubscriptionEvent xs) m
     = forEach (applySubscription tbl config can) xs m"
  by (induction xs arbitrary: m) (auto split: sum.splits)

lemma forEach_UnsubscriptionEvent:
  "forEach (applyEvent tbl config can) (map UnsubscriptionEvent xs) m
     = forEach (applyUnsubscription tbl) xs m"
  by (induction xs arbitrary: m) (auto split: sum.splits)

lemma applyBlock_blockEvents:
  "applyBlock tbl config can subs unsubs block m
     = forEach (applyEvent tbl config can) (blockEvents subs unsubs block) m"
  by (simp add: applyBlock_def blockEvents_def forEach_append
      forEach_SubscriptionEvent forEach_UnsubscriptionEvent split: sum.splits)

lemma forEach_applyBlock:
  "forEach (applyBlock tbl config can subs unsubs) blocks m
     = forEach (applyEvent tbl config can) (concat (map (blockEvents subs unsubs) blocks)) m"
proof (induction blocks arbitrary: m)
  case Nil
  then show ?case by simp
next
  case (Cons b blocks)
  then show ?case
    by (simp add: forEach_append applyBlock_blockEvents split: sum.splits)
qed

lemma set_foldl_appendBlock:
  "set (foldl appendBlock acc bs) = set acc \<union> set bs"
  by (induction bs arbitrary: acc) (auto simp: appendBlock_def)

lemma distinct_foldl_appendBlock:
  "distinct acc \<Longrightarrow> distinct (foldl appendBlock acc bs)"
  by (induction bs arbitrary: acc) (auto simp: appendBlock_def)

lemma set_eventsBlocksList:
  "set (eventsBlocksList subs unsubs) = event_BlockNumber ` set (allEvents subs unsubs)"
  by (auto simp: eventsBlocksList_def set_foldl_appendBlock allEvents_def image_Un image_image)

lemma distinct_eventsBlocksList: "distinct (eventsBlocksList subs unsubs)"
  by (simp add: eventsBlocksList_def distinct_foldl_appendBlock)

text \<open>Sorting by a key is collecting, key after key, the elements with that key.\<close>

lemma concat_filter_other:
  "c \<notin> set ks \<Longrightarrow> concat (map (\<lambda>k. filter (\<lambda>x. f x = k \<and> f x = c) xs) ks) = []"
  by (induction ks) auto

lemma concat_filter_key:
  "distinct ks \<Longrightarrow> c \<in> set ks \<Longrightarrow>
     concat (map (\<lambda>k. filter (\<lambda>x. f x = k \<and> f x = c) xs) ks) = filter (\<lambda>x. f x = c) xs"
proof (induction ks)
  case Nil
  then show ?case by simp
next
  case (Cons k ks)
  show ?case
  proof (cases "k = c")
    case True
    with Cons.prems have "c \<notin> set ks" by simp
    then show ?thesis
      using True by (simp add: concat_filter_other)
  next
    case False
    with Cons show ?thesis by simp
  qed
qed

lemma mset_concat_filter:
  "distinct ks \<Longrightarrow>
     mset (concat (map (\<lambda>k. filter (\<lambda>x. f x = k) xs) ks)) = filter_mset (\<lambda>x. f x \<in> set ks) (mset xs)"
proof (induction ks)
  case Nil
  then show ?case by simp
next
  case (Cons k ks)
  then have "mset (concat (map (\<lambda>k. filter (\<lambda>x. f x = k) xs) (k # ks)))
      = filter_mset (\<lambda>x. f x = k) (mset xs) + filter_mset (\<lambda>x. f x \<in> set ks) (mset xs)"
    by simp
  also have "\<dots> = filter_mset (\<lambda>x. f x \<in> set (k # ks)) (mset xs)"
    using Cons.prems by (auto intro!: multiset_eqI)
  finally show ?case .
qed

lemma sorted_filter_same_key: "sorted (map f (filter (\<lambda>x. f x = k) xs))"
  by (induction xs) auto

lemma sorted_concat_filter:
  "sorted ks \<Longrightarrow> sorted (map f (concat (map (\<lambda>k. filter (\<lambda>x. f x = k) xs) ks)))"
proof (induction ks)
  case Nil
  then show ?case by simp
next
  case (Cons k ks)
  then show ?case
    by (auto simp: sorted_append sorted_filter_same_key)
qed

lemma sort_key_by_keys:
  fixes f :: "'a \<Rightarrow> 'k::linorder"
  assumes "sorted ks" and "distinct ks" and "f ` set xs \<subseteq> set ks"
  shows "sort_key f xs = concat (map (\<lambda>k. filter (\<lambda>x. f x = k) xs) ks)"
proof (rule properties_for_sort_key)
  have "filter_mset (\<lambda>x. f x \<in> set ks) (mset xs) = mset xs"
    using assms(3) by (auto simp: filter_mset_eq_conv)
  then show "mset (concat (map (\<lambda>k. filter (\<lambda>x. f x = k) xs) ks)) = mset xs"
    using assms(2) by (simp add: mset_concat_filter)
next
  fix y
  assume "y \<in> set (concat (map (\<lambda>k. filter (\<lambda>x. f x = k) xs) ks))"
  then have "f y \<in> set ks" by auto
  have "filter (\<lambda>x. f y = f x) (concat (map (\<lambda>k. filter (\<lambda>x. f x = k) xs) ks))
      = concat (map (\<lambda>k. filter (\<lambda>x. f x = k \<and> f x = f y) xs) ks)"
    by (simp add: filter_concat comp_def conj_commute eq_commute [of "f y"])
  also have "\<dots> = filter (\<lambda>x. f x = f y) xs"
    using assms(2) \<open>f y \<in> set ks\<close> by (rule concat_filter_key)
  finally show "filter (\<lambda>x. f y = f x) (concat (map (\<lambda>k. filter (\<lambda>x. f x = k) xs) ks))
      = filter (\<lambda>x. f y = f x) xs"
    by (simp add: eq_commute [of "f y"])
next
  show "sorted (map f (concat (map (\<lambda>k. filter (\<lambda>x. f x = k) xs) ks)))"
    using assms(1) by (rule sorted_concat_filter)
qed

lemma set_blockKeys: "set (blockKeys bs) = set bs \<times> UNIV"
  by (auto simp: blockKeys_def)

lemma sorted_blockKeys: "sorted bs \<Longrightarrow> distinct bs \<Longrightarrow> sorted (blockKeys bs)"
proof (induction bs)
  case Nil
  then show ?case by (simp add: blockKeys_def)
next
  case (Cons b bs)
  have keys: "blockKeys (b # bs) = (b, False) # (b, True) # blockKeys bs"
    by (simp add: blockKeys_def)
  have "\<forall>k \<in> set (blockKeys bs). (b, True) \<le> k"
    using Cons.prems by (auto simp: set_blockKeys less_eq_prod_def)
  moreover have "\<forall>k \<in> set (blockKeys bs). (b, False) \<le> k"
    using Cons.prems by (auto simp: set_blockKeys less_eq_prod_def)
  ultimately show ?case
    using Cons by (simp add: keys less_eq_prod_def)
qed

lemma distinct_blockKeys: "distinct bs \<Longrightarrow> distinct (blockKeys bs)"
proof (induction bs)
  case Nil
  then show ?case by (simp add: blockKeys_def)
next
  case (Cons b bs)
  have keys: "blockKeys (b # bs) = (b, False) # (b, True) # blockKeys bs"
    by (simp add: blockKeys_def)
  show ?case
    using Cons by (auto simp: keys set_blockKeys)
qed

lemma blockEvents_by_key:
  "blockEvents subs unsubs b =
     filter (\<lambda>ev. overlayKey ev = (b, False)) (allEvents subs unsubs)
     @ filter (\<lambda>ev. overlayKey ev = (b, True)) (allEvents subs unsubs)"
  by (simp add: blockEvents_def allEvents_def overlayKey_def GetSubInBlock_def
      GetUnsubInBlock_def filter_map comp_def)

lemma concat_blockEvents:
  "concat (map (blockEvents subs unsubs) bs) =
     concat (map (\<lambda>k. filter (\<lambda>ev. overlayKey ev = k) (allEvents subs unsubs)) (blockKeys bs))"
  by (induction bs) (simp_all add: blockKeys_def blockEvents_by_key)

lemma overlayOrder_blocks:
  "concat (map (blockEvents subs unsubs) (sort (eventsBlocksList subs unsubs)))
     = overlayOrder subs unsubs"
proof -
  let ?bs = "sort (eventsBlocksList subs unsubs)"
  have "sorted (blockKeys ?bs)"
    by (rule sorted_blockKeys) (simp_all add: distinct_eventsBlocksList)
  moreover have "distinct (blockKeys ?bs)"
    by (rule distinct_blockKeys) (simp add: distinct_eventsBlocksList)
  moreover have "overlayKey ` set (allEvents subs unsubs) \<subseteq> set (blockKeys ?bs)"
    by (auto simp: set_blockKeys set_eventsBlocksList overlayKey_def)
  ultimately have "sort_key overlayKey (allEvents subs unsubs)
      = concat (map (\<lambda>k. filter (\<lambda>ev. overlayKey ev = k) (allEvents subs unsubs)) (blockKeys ?bs))"
    by (rule sort_key_by_keys)
  then show ?thesis
    by (simp add: overlayOrder_def concat_blockEvents)
qed

lemma ApplyNonFinalizedState_overlayOrder:
  "ApplyNonFinalizedState tbl config can subs unsubs validators
     = forEach (applyEvent tbl config can) (overlayOrder subs unsubs) validators"
  by (simp add: ApplyNonFinalizedState_def forEach_applyBlock overlayOrder_blocks)

lemma applyEvent_overlay:
  "applyEvent tbl config can ev m = Inr m' \<Longrightarrow> overlay_of m m'"
  by (cases ev) (auto intro: applySubscription_overlay applyUnsubscription_overlay)

lemma applyEvent_unknown:
  "event_ValidatorID ev \<notin> dom m \<Longrightarrow> applyEvent tbl config can ev m = Inr m"
  by (cases ev) (auto simp: applySubscription_def applyUnsubscription_def dom_def)

lemma forEach_known_events:
  "forEach (applyEvent tbl config can) evs m
     = forEach (applyEvent tbl config can) (filter (\<lambda>ev. event_ValidatorID ev \<in> dom m) evs) m"
proof (induction evs arbitrary: m)
  case Nil
  then show ?case by simp
next
  case (Cons ev evs)
  show ?case
  proof (cases "event_ValidatorID ev \<in> dom m")
    case False
    then show ?thesis
      using Cons.IH [of m] by (simp add: applyEvent_unknown)
  next
    case True
    show ?thesis
    proof (cases "applyEvent tbl config can ev m")
      case (Inl e)
      then show ?thesis using True by simp
    next
      case (Inr m1)
      then have "dom m1 = dom m"
        by (intro overlay_of_dom applyEvent_overlay)
      then show ?thesis
        using True Inr Cons.IH [of m1] by simp
    qed
  qed
qed

lemma filter_allEvents:
  "filter (\<lambda>ev. event_ValidatorID ev \<in> D) (allEvents subs unsubs)
     = allEvents (filter (\<lambda>sub. sub_ValidatorID sub \<in> D) subs)
         (filter (\<lambda>unsub. unsub_ValidatorID unsub \<in> D) unsubs)"
  by (simp add: allEvents_def filter_map comp_def)

lemma ApplyNonFinalizedState_known_events:
  "ApplyNonFinalizedState tbl config can subs unsubs validators
     = ApplyNonFinalizedState tbl config can
         (filter (\<lambda>sub. sub_ValidatorID sub \<in> dom validators) subs)
         (filter (\<lambda>unsub. unsub_ValidatorID unsub \<in> dom validators) unsubs) validators"
proof -
  have "ApplyNonFinalizedState tbl config can subs unsubs validators
      = forEach (applyEvent tbl config can)
          (filter (\<lambda>ev. event_ValidatorID ev \<in> dom validators) (overlayOrder subs unsubs))
          validators"
    unfolding ApplyNonFinalizedState_overlayOrder by (rule forEach_known_events)
  also have "filter (\<lambda>ev. event_ValidatorID ev \<in> dom validators) (overlayOrder subs unsubs)
      = overlayOrder (filter (\<lambda>sub. sub_ValidatorID sub \<in> dom validators) subs)
          (filter (\<lambda>unsub. unsub_ValidatorID unsub \<in> dom validators) unsubs)"
    by (simp add: overlayOrder_def filter_sort filter_allEvents)
  finally show ?thesis
    by (simp add: ApplyNonFinalizedState_overlayOrder)
qed


section \<open>The overlay: effect of an event, frame of a call\<close>

lemma example_ASCII: "isASCII exampleAddress" "isASCII exampleSender"
  by code_simp+

lemma example_lower_byte: "map lower_byte exampleAddress = map lower_byte exampleSender"
  by code_simp

lemma example_ToLower: "ToLower tbl exampleAddress = ToLower tbl exampleSender"
  by (simp add: ToLower_ASCII example_ASCII example_lower_byte)

lemma example_length: "length exampleAddress = length exampleSender"
  by code_simp

lemma example_addresses_equal: "AreAddressEqual tbl exampleAddress exampleSender = Inr True"
  using example_length by (simp add: AreAddressEqual_def example_ToLower)

lemma ApplyNonFinalizedState_single_subscription:
  "ApplyNonFinalizedState tbl config can [sub] [] validators = applySubscription tbl config can sub validators"
  by (simp add: ApplyNonFinalizedState_def eventsBlocksList_def appendBlock_def applyBlock_def
      GetSubInBlock_def GetUnsubInBlock_def split: sum.splits)

text \<open>
  Claim C5. For an event whose validator is a key of the map. Comparing two addresses of
  different lengths ends the process before anything is written. Otherwise the event is
  processed, and it changes the entry of its validator exactly when the subscription is
  taken (sender equal to the withdrawal address up to case, collateral at least the
  configured one, beacon validator able to subscribe, status Untracked or NotSubscribed):
  then the status becomes Active and the pending rewards grow by the collateral of the
  event, and nothing else changes; when it is not taken the map stays as it is. A call with
  this one event is the processing of this event.
\<close>

theorem subscription_event_effect:
  assumes "validators (sub_ValidatorID sub) = Some val"
  shows "ApplyNonFinalizedState tbl config can [sub] [] validators
           = applySubscription tbl config can sub validators
         \<and> (length (val_WithdrawalAddress val) \<noteq> length (sub_Sender sub) \<longrightarrow>
              (\<exists>msg. applySubscription tbl config can sub validators = Inl (Fatal msg)))
         \<and> (length (val_WithdrawalAddress val) = length (sub_Sender sub) \<longrightarrow>
              (\<exists>validators'. applySubscription tbl config can sub validators = Inr validators'
                 \<and> (validators' (sub_ValidatorID sub) \<noteq> Some val
                      \<longleftrightarrow> subscriptionAccepted tbl config can sub val)
                 \<and> (subscriptionAccepted tbl config can sub val \<longrightarrow>
                      validators' = validators(sub_ValidatorID sub \<mapsto>
                        val\<lparr>ValidatorStatus := Active,
                            PendingRewardsWei :=
                              PendingRewardsWei val + SubscriptionCollateral sub\<rparr>))
                 \<and> (\<not> subscriptionAccepted tbl config can sub val \<longrightarrow> validators' = validators)))"
proof (intro conjI impI)
  show "ApplyNonFinalizedState tbl config can [sub] [] validators
      = applySubscription tbl config can sub validators"
    by (rule ApplyNonFinalizedState_single_subscription)
next
  assume "length (val_WithdrawalAddress val) \<noteq> length (sub_Sender sub)"
  then show "\<exists>msg. applySubscription tbl config can sub validators = Inl (Fatal msg)"
    using assms by (simp add: applySubscription_def AreAddressEqual_def)
next
  assume len: "length (val_WithdrawalAddress val) = length (sub_Sender sub)"
  show "\<exists>validators'. applySubscription tbl config can sub validators = Inr validators'
      \<and> (validators' (sub_ValidatorID sub) \<noteq> Some val
           \<longleftrightarrow> subscriptionAccepted tbl config can sub val)
      \<and> (subscriptionAccepted tbl config can sub val \<longrightarrow>
           validators' = validators(sub_ValidatorID sub \<mapsto>
             val\<lparr>ValidatorStatus := Active,
                 PendingRewardsWei := PendingRewardsWei val + SubscriptionCollateral sub\<rparr>))
      \<and> (\<not> subscriptionAccepted tbl config can sub val \<longrightarrow> validators' = validators)"
  proof (cases "subscriptionAccepted tbl config can sub val")
    case True
    have "val\<lparr>ValidatorStatus := Active,
              PendingRewardsWei := PendingRewardsWei val + SubscriptionCollateral sub\<rparr> \<noteq> val"
    proof
      assume eq: "val\<lparr>ValidatorStatus := Active,
              PendingRewardsWei := PendingRewardsWei val + SubscriptionCollateral sub\<rparr> = val"
      have "ValidatorStatus (val\<lparr>ValidatorStatus := Active,
              PendingRewardsWei := PendingRewardsWei val + SubscriptionCollateral sub\<rparr>) = Active"
        by simp
      then have "ValidatorStatus val = Active"
        by (simp only: eq)
      then show False
        using True by (simp add: subscriptionAccepted_def)
    qed
    then show ?thesis
      using True assms len
      by (simp add: applySubscription_def AreAddressEqual_def subscriptionAccepted_def)
  next
    case False
    then show ?thesis
      using assms len
      by (auto simp: applySubscription_def AreAddressEqual_def subscriptionAccepted_def)
  qed
qed

lemma example_subscription_accepted:
  "subscriptionAccepted tbl exampleConfig activeOngoing (exampleSubscription 5 10 0)
     (exampleValidator NotSubscribed 500)"
  using example_ToLower
  by (simp add: subscriptionAccepted_def exampleConfig_def activeOngoing_def
      exampleSubscription_def exampleValidator_def)

theorem subscription_event_effect_witness:
  "[5 \<mapsto> exampleValidator NotSubscribed 500] (sub_ValidatorID (exampleSubscription 5 10 0))
     = Some (exampleValidator NotSubscribed 500)
   \<and> ApplyNonFinalizedState latin1CaseRanges exampleConfig activeOngoing [exampleSubscription 5 10 0] []
         [5 \<mapsto> exampleValidator NotSubscribed 500]
       = Inr [5 \<mapsto> exampleValidator Active 1500]"
proof -
  have key: "[5 \<mapsto> exampleValidator NotSubscribed 500]
      (sub_ValidatorID (exampleSubscription 5 10 0)) = Some (exampleValidator NotSubscribed 500)"
    by (simp add: exampleSubscription_def)
  have len: "length (val_WithdrawalAddress (exampleValidator NotSubscribed 500))
      = length (sub_Sender (exampleSubscription 5 10 0))"
    using example_length by (simp add: exampleValidator_def exampleSubscription_def)
  have upd: "(exampleValidator NotSubscribed 500)\<lparr>ValidatorStatus := Active,
        PendingRewardsWei := PendingRewardsWei (exampleValidator NotSubscribed 500)
          + SubscriptionCollateral (exampleSubscription 5 10 0)\<rparr>
      = exampleValidator Active 1500"
    by (simp add: exampleValidator_def exampleSubscription_def)
  show ?thesis
    using subscription_event_effect [where validators = "[5 \<mapsto> exampleValidator NotSubscribed 500]"
        and sub = "exampleSubscription 5 10 0" and val = "exampleValidator NotSubscribed 500"
        and config = exampleConfig and can = activeOngoing and tbl = latin1CaseRanges]
      key len example_subscription_accepted upd
    by (auto simp: exampleSubscription_def)
qed

text \<open>
  Claim C4. When \<^verbatim>\<open>ApplyNonFinalizedState tbl\<close> returns, every entry of the map is still
  there and differs from what it was at most in \<^verbatim>\<open>ValidatorStatus\<close> and
  \<^verbatim>\<open>PendingRewardsWei\<close>: the accumulated rewards, the collateral, the withdrawal
  address, the key, the index and the three lists of blocks are as before.
\<close>

theorem ApplyNonFinalizedState_frame:
  assumes "ApplyNonFinalizedState tbl config can subs unsubs validators = Inr validators'"
    and "validators valIndex = Some val"
  shows "\<exists>val'. validators' valIndex = Some val'
           \<and> AccumulatedRewardsWei val' = AccumulatedRewardsWei val
           \<and> CollateralWei val' = CollateralWei val
           \<and> val_WithdrawalAddress val' = val_WithdrawalAddress val
           \<and> val_ValidatorKey val' = val_ValidatorKey val
           \<and> val_ValidatorIndex val' = val_ValidatorIndex val
           \<and> ValidatorProposedBlocks val' = ValidatorProposedBlocks val
           \<and> ValidatorMissedBlocks val' = ValidatorMissedBlocks val
           \<and> ValidatorWrongFeeBlocks val' = ValidatorWrongFeeBlocks val
           \<and> val' = val\<lparr>ValidatorStatus := ValidatorStatus val',
                         PendingRewardsWei := PendingRewardsWei val'\<rparr>"
proof -
  have "overlay_of validators validators'"
    using assms(1) by (rule ApplyNonFinalizedState_overlay)
  then obtain val' where v: "validators' valIndex = Some val'" and l: "same_ledger val val'"
    using assms(2) by (auto simp: overlay_of_def split: option.splits dest!: spec [of _ valIndex])
  have "val' = val\<lparr>ValidatorStatus := ValidatorStatus val',
                    PendingRewardsWei := PendingRewardsWei val'\<rparr>"
    using l by (intro ValidatorInfo.equality) (simp_all add: same_ledger_def)
  then show ?thesis
    using v l by (simp add: same_ledger_def)
qed

lemma example_unsubscribed:
  "ApplyNonFinalizedState tbl exampleConfig activeOngoing [] [exampleUnsubscription 5 10 0]
     [5 \<mapsto> exampleValidator Active 500] = Inr [5 \<mapsto> exampleValidator NotSubscribed 0]"
  using example_addresses_equal
  by (simp add: ApplyNonFinalizedState_def eventsBlocksList_def appendBlock_def applyBlock_def
      GetSubInBlock_def GetUnsubInBlock_def applyUnsubscription_def exampleUnsubscription_def
      exampleValidator_def)

theorem ApplyNonFinalizedState_frame_witness:
  "ApplyNonFinalizedState latin1CaseRanges exampleConfig activeOngoing []
     [exampleUnsubscription 5 10 0] [5 \<mapsto> exampleValidator Active 500]
     = Inr [5 \<mapsto> exampleValidator NotSubscribed 0]
   \<and> [5 \<mapsto> exampleValidator Active 500] 5 = Some (exampleValidator Active 500)
   \<and> AccumulatedRewardsWei (exampleValidator NotSubscribed 0)
       = AccumulatedRewardsWei (exampleValidator Active 500)
   \<and> exampleValidator NotSubscribed 0
       = (exampleValidator Active 500)\<lparr>ValidatorStatus := NotSubscribed, PendingRewardsWei := 0\<rparr>"
  using ApplyNonFinalizedState_frame [OF example_unsubscribed [of latin1CaseRanges], of 5
      "exampleValidator Active 500"]
    example_unsubscribed [of latin1CaseRanges]
  by (simp add: exampleValidator_def)


section \<open>The overlay: order of the replay, keys of the map\<close>

text \<open>
  Claim C6, as amended. The map \<^verbatim>\<open>ApplyNonFinalizedState tbl\<close> produces is the map obtained
  by replaying all the events one at a time in the order of \<open>overlayOrder\<close>: the events
  of both lists, sorted by block number and, within a block, the subscriptions before the
  unsubscriptions; events of one kind in one block keep the order they have in their list.
\<close>

theorem ApplyNonFinalizedState_replay:
  "ApplyNonFinalizedState tbl config can subs unsubs validators
     = forEach (applyEvent tbl config can) (overlayOrder subs unsubs) validators
   \<and> mset (overlayOrder subs unsubs) = mset (allEvents subs unsubs)
   \<and> sorted (map overlayKey (overlayOrder subs unsubs))
   \<and> filter (\<lambda>ev. overlayKey ev = k) (overlayOrder subs unsubs)
       = filter (\<lambda>ev. overlayKey ev = k) (allEvents subs unsubs)"
  by (simp add: ApplyNonFinalizedState_overlayOrder overlayOrder_def sort_key_stable)

lemma example_overlayOrder:
  "overlayOrder [exampleSubscription 5 10 7] [exampleUnsubscription 5 10 3]
     = [SubscriptionEvent (exampleSubscription 5 10 7),
        UnsubscriptionEvent (exampleUnsubscription 5 10 3)]"
  by (simp add: overlayOrder_def allEvents_def overlayKey_def exampleSubscription_def
      exampleUnsubscription_def less_eq_prod_def)

lemma example_code_order:
  "forEach (applyEvent tbl exampleConfig activeOngoing)
     [SubscriptionEvent (exampleSubscription 5 10 7),
      UnsubscriptionEvent (exampleUnsubscription 5 10 3)]
     [5 \<mapsto> exampleValidator Active 500] = Inr [5 \<mapsto> exampleValidator NotSubscribed 0]"
  using example_addresses_equal
  by (simp add: applySubscription_def applyUnsubscription_def exampleSubscription_def
      exampleUnsubscription_def exampleValidator_def)

lemma example_log_order:
  "replayInLogOrder tbl exampleConfig activeOngoing
     [exampleSubscription 5 10 7] [exampleUnsubscription 5 10 3]
     [5 \<mapsto> exampleValidator Active 500] = Inr [5 \<mapsto> exampleValidator Active 1000]"
  using example_addresses_equal
  by (simp add: replayInLogOrder_def allEvents_def less_eq_prod_def
      applySubscription_def applyUnsubscription_def exampleSubscription_def
      exampleUnsubscription_def exampleValidator_def exampleConfig_def activeOngoing_def)

theorem ApplyNonFinalizedState_replay_witness:
  "ApplyNonFinalizedState latin1CaseRanges exampleConfig activeOngoing
     [exampleSubscription 5 10 7] [exampleUnsubscription 5 10 3]
     [5 \<mapsto> exampleValidator Active 500] = Inr [5 \<mapsto> exampleValidator NotSubscribed 0]"
  using ApplyNonFinalizedState_replay [of latin1CaseRanges exampleConfig activeOngoing
      "[exampleSubscription 5 10 7]" "[exampleUnsubscription 5 10 3]"
      "[5 \<mapsto> exampleValidator Active 500]"]
  by (simp only: example_overlayOrder example_code_order)

text \<open>
  Claim C6, as stated, fails: an unsubscription with log index 3 and a subscription with
  log index 7 of the same validator in block 10. In the order of the log the validator
  ends Active with the collateral pending; the code applies the subscription first (no
  effect on an Active validator) and then the unsubscription.
\<close>

theorem ApplyNonFinalizedState_not_log_order:
  "ApplyNonFinalizedState latin1CaseRanges exampleConfig activeOngoing
     [exampleSubscription 5 10 7] [exampleUnsubscription 5 10 3]
     [5 \<mapsto> exampleValidator Active 500]
   \<noteq> replayInLogOrder latin1CaseRanges exampleConfig activeOngoing
     [exampleSubscription 5 10 7] [exampleUnsubscription 5 10 3]
     [5 \<mapsto> exampleValidator Active 500]"
proof -
  have "exampleValidator NotSubscribed 0 \<noteq> exampleValidator Active 1000"
    by (simp add: exampleValidator_def)
  then have "[5 \<mapsto> exampleValidator NotSubscribed 0] (5 :: uint64)
      \<noteq> [5 \<mapsto> exampleValidator Active 1000] 5"
    by simp
  then have "[(5 :: uint64) \<mapsto> exampleValidator NotSubscribed 0]
      \<noteq> [5 \<mapsto> exampleValidator Active 1000]"
    by metis
  then show ?thesis
    unfolding ApplyNonFinalizedState_overlayOrder example_overlayOrder example_code_order
      example_log_order
    by simp
qed

text \<open>
  Claim C10. When \<^verbatim>\<open>ApplyNonFinalizedState tbl\<close> returns, the keys of the map are the keys
  it was given; and the events whose validator is not a key of the map are ignored: the
  call does what it does without them.
\<close>

theorem ApplyNonFinalizedState_keys:
  "(ApplyNonFinalizedState tbl config can subs unsubs validators = Inr validators'
      \<longrightarrow> dom validators' = dom validators)
   \<and> ApplyNonFinalizedState tbl config can subs unsubs validators
       = ApplyNonFinalizedState tbl config can
           (filter (\<lambda>sub. sub_ValidatorID sub \<in> dom validators) subs)
           (filter (\<lambda>unsub. unsub_ValidatorID unsub \<in> dom validators) unsubs) validators"
  using ApplyNonFinalizedState_known_events [of tbl config can subs unsubs validators]
    overlay_of_dom [OF ApplyNonFinalizedState_overlay,
      of tbl config can subs unsubs validators validators']
  by simp

lemma example_unknown_validator:
  "ApplyNonFinalizedState tbl exampleConfig activeOngoing [exampleSubscription 99 10 0] []
     [5 \<mapsto> exampleValidator NotSubscribed 500] = Inr [5 \<mapsto> exampleValidator NotSubscribed 500]"
  by (simp add: ApplyNonFinalizedState_def eventsBlocksList_def appendBlock_def applyBlock_def
      GetSubInBlock_def GetUnsubInBlock_def applySubscription_def exampleSubscription_def)

theorem ApplyNonFinalizedState_keys_witness:
  "ApplyNonFinalizedState latin1CaseRanges exampleConfig activeOngoing [exampleSubscription 99 10 0] []
     [5 \<mapsto> exampleValidator NotSubscribed 500] = Inr [5 \<mapsto> exampleValidator NotSubscribed 500]
   \<and> dom [(5 :: uint64) \<mapsto> exampleValidator NotSubscribed 500] = {5}
   \<and> filter (\<lambda>sub. sub_ValidatorID sub \<in> dom [(5 :: uint64) \<mapsto> exampleValidator NotSubscribed 500])
         [exampleSubscription 99 10 0] = []"
  using ApplyNonFinalizedState_keys [of latin1CaseRanges exampleConfig activeOngoing
      "[exampleSubscription 99 10 0]"
      "[]" "[5 \<mapsto> exampleValidator NotSubscribed 500]" "[5 \<mapsto> exampleValidator NotSubscribed 500]"]
    example_unknown_validator
  by (simp add: exampleSubscription_def)


section \<open>The per-slot step and the main loop: properties\<close>

text \<open>
  Claim C1. When the slot of the block is the slot of the oracle, the step is, in this
  order: the subscriptions of the block; then what the type of the block asks for, with
  the subscriptions already applied (a missed proposal is handled only when the proposer
  is subscribed then, as is a wrong fee recipient); then the unsubscriptions; then the
  donations; and last \<^verbatim>\<open>LatestSlot\<close> becomes \<^verbatim>\<open>LatestSlot + 1\<close> in 64-bit arithmetic,
  which is one more unless the slot is the largest 64-bit value. The slot returned is the
  one before the increment. This holds whatever the methods of the state do.
\<close>

theorem AdvanceStateToNextSlot_order:
  assumes "Slot blockPool = LatestSlot s"
  shows "let s1 = HandleManualSubscriptions st (CollateralInWei cfg) blockSubs s;
             subscribed = IsValidatorSubscribed st (ValidatorIndex blockPool) s1;
             s2 = (case BlockType blockPool of
                     MissedProposal \<Rightarrow>
                       if subscribed then HandleMissedBlock st blockPool s1 else s1
                   | OkPoolProposalBlsKeys \<Rightarrow> SendRewardToPool (Reward blockPool) s1
                   | OkPoolProposal \<Rightarrow> HandleCorrectBlockProposal st blockPool s1
                   | WrongFeeRecipient \<Rightarrow>
                       if subscribed then HandleBanValidator st blockPool s1 else s1);
             s3 = HandleManualUnsubscriptions st blockUnsubs s2;
             s4 = HandleDonations st blockDonations s3;
             result = AdvanceStateToNextSlot st cfg blockPool blockSubs blockUnsubs blockDonations s
         in result = (Inr (LatestSlot s4), s4\<lparr>LatestSlot := LatestSlot s4 + 1\<rparr>)
            \<and> (unat (LatestSlot s4) < 2 ^ 64 - 1 \<longrightarrow>
                 unat (LatestSlot (snd result)) = unat (LatestSlot s4) + 1)"
proof -
  have inc: "unat (x + 1) = unat x + 1" if "unat x < 2 ^ 64 - 1" for x :: uint64
    using that by (simp add: unat_word_ariths)
  show ?thesis
    using assms
    by (cases "BlockType blockPool")
      (simp_all add: AdvanceStateToNextSlot_def validateParameters_def Let_def inc)
qed

theorem AdvanceStateToNextSlot_order_witness:
  "Slot (exampleBlock 7 MissedProposal) = LatestSlot exampleState
   \<and> AdvanceStateToNextSlot exampleMethods exampleConfig (exampleBlock 7 MissedProposal) [] [] []
        exampleState
      = (Inr 7, exampleState\<lparr>PoolAccumulatedFees := 1267, LatestSlot := 8\<rparr>)
   \<and> AdvanceStateToNextSlot exampleMethods exampleConfig (exampleBlock 7 OkPoolProposal) [] [] []
        exampleState
      = (Inr 7, exampleState\<lparr>PoolAccumulatedFees := 1467, LatestSlot := 8\<rparr>)
   \<and> AdvanceStateToNextSlot exampleMethods exampleConfig (exampleBlock 7 WrongFeeRecipient) [] [] []
        exampleState
      = (Inr 7, exampleState\<lparr>PoolAccumulatedFees := 1567, LatestSlot := 8\<rparr>)"
  using AdvanceStateToNextSlot_order [of "exampleBlock 7 MissedProposal" exampleState
      exampleMethods exampleConfig "[]" "[]" "[]"]
    AdvanceStateToNextSlot_order [of "exampleBlock 7 OkPoolProposal" exampleState
      exampleMethods exampleConfig "[]" "[]" "[]"]
    AdvanceStateToNextSlot_order [of "exampleBlock 7 WrongFeeRecipient" exampleState
      exampleMethods exampleConfig "[]" "[]" "[]"]
  by (simp add: exampleBlock_def exampleState_def exampleMethods_def writeDigit_def Let_def)

text \<open>
  Claim C2. When the slot of the block differs from the slot of the oracle, the step
  returns the error and the oracle state is the one it was given: none of the methods of
  the state has run and \<^verbatim>\<open>LatestSlot\<close> is as before.
\<close>

theorem AdvanceStateToNextSlot_slot_mismatch:
  assumes "Slot blockPool \<noteq> LatestSlot s"
  shows "AdvanceStateToNextSlot st cfg blockPool blockSubs blockUnsubs blockDonations s
           = (Inl (SlotMismatch (Slot blockPool) (LatestSlot s)), s)"
  using assms by (simp add: AdvanceStateToNextSlot_def validateParameters_def)

theorem AdvanceStateToNextSlot_slot_mismatch_witness:
  "Slot (exampleBlock 8 OkPoolProposal) \<noteq> LatestSlot exampleState
   \<and> AdvanceStateToNextSlot exampleMethods exampleConfig (exampleBlock 8 OkPoolProposal)
        [exampleSubscription 5 10 0] [exampleUnsubscription 5 10 3] [] exampleState
      = (Inl (SlotMismatch 8 7), exampleState)"
  using AdvanceStateToNextSlot_slot_mismatch [of "exampleBlock 8 OkPoolProposal" exampleState
      exampleMethods exampleConfig "[exampleSubscription 5 10 0]" "[exampleUnsubscription 5 10 3]" "[]"]
  by (simp add: exampleBlock_def exampleState_def)

text \<open>
  Claim C7. For a block of type \<^verbatim>\<open>OkPoolProposalBlsKeys\<close> the block itself contributes
  to the step one thing only, between the subscriptions and the unsubscriptions of the
  slot: its reward is added to the accumulated fees of the pool. That leaves the validators,
  the lists of proposed, missed and wrong-fee blocks, the donations and the slot as they
  were, and none of the methods for a missed, a correct or a wrong-fee proposal is called:
  the result does not depend on them. The events of the slot and the increment of the slot
  are handled as for every block; when these events leave the state alone, the whole step
  changes the accumulated fees of the pool, by the reward, and the slot, by one.
\<close>

theorem AdvanceStateToNextSlot_BlsKeys:
  assumes "Slot blockPool = LatestSlot s"
    and "BlockType blockPool = OkPoolProposalBlsKeys"
  shows "let s1 = HandleManualSubscriptions st (CollateralInWei cfg) blockSubs s;
             s2 = SendRewardToPool (Reward blockPool) s1;
             s3 = HandleManualUnsubscriptions st blockUnsubs s2;
             s4 = HandleDonations st blockDonations s3;
             result = AdvanceStateToNextSlot st cfg blockPool blockSubs blockUnsubs blockDonations s
         in result = (Inr (LatestSlot s4), s4\<lparr>LatestSlot := LatestSlot s4 + 1\<rparr>)
            \<and> s2 = s1\<lparr>PoolAccumulatedFees := PoolAccumulatedFees s1 + Reward blockPool\<rparr>
            \<and> PoolAccumulatedFees s2 = PoolAccumulatedFees s1 + Reward blockPool
            \<and> Validators s2 = Validators s1
            \<and> ProposedBlocks s2 = ProposedBlocks s1
            \<and> MissedBlocks s2 = MissedBlocks s1
            \<and> WrongFeeBlocks s2 = WrongFeeBlocks s1
            \<and> Donations s2 = Donations s1
            \<and> LatestSlot s2 = LatestSlot s1
            \<and> (s1 = s \<and> s3 = s2 \<and> s4 = s3 \<longrightarrow>
                 result = (Inr (LatestSlot s),
                   s\<lparr>PoolAccumulatedFees := PoolAccumulatedFees s + Reward blockPool,
                     LatestSlot := LatestSlot s + 1\<rparr>))"
proof -
  define s1 where "s1 = HandleManualSubscriptions st (CollateralInWei cfg) blockSubs s"
  define s2 where "s2 = SendRewardToPool (Reward blockPool) s1"
  define s3 where "s3 = HandleManualUnsubscriptions st blockUnsubs s2"
  define s4 where "s4 = HandleDonations st blockDonations s3"
  define result where
    "result = AdvanceStateToNextSlot st cfg blockPool blockSubs blockUnsubs blockDonations s"
  have step: "result = (Inr (LatestSlot s4), s4\<lparr>LatestSlot := LatestSlot s4 + 1\<rparr>)"
    using assms
    by (simp add: result_def s4_def s3_def s2_def s1_def AdvanceStateToNextSlot_def
        validateParameters_def Let_def)
  have pool: "s2 = s1\<lparr>PoolAccumulatedFees := PoolAccumulatedFees s1 + Reward blockPool\<rparr>"
    by (simp add: s2_def SendRewardToPool_def)
  have idle: "result = (Inr (LatestSlot s),
      s\<lparr>PoolAccumulatedFees := PoolAccumulatedFees s + Reward blockPool,
        LatestSlot := LatestSlot s + 1\<rparr>)"
    if "s1 = s \<and> s3 = s2 \<and> s4 = s3"
  proof -
    have "s4 = s\<lparr>PoolAccumulatedFees := PoolAccumulatedFees s + Reward blockPool\<rparr>"
      using that pool by simp
    then show ?thesis
      by (simp add: step)
  qed
  have frame: "PoolAccumulatedFees s2 = PoolAccumulatedFees s1 + Reward blockPool
      \<and> Validators s2 = Validators s1 \<and> ProposedBlocks s2 = ProposedBlocks s1
      \<and> MissedBlocks s2 = MissedBlocks s1 \<and> WrongFeeBlocks s2 = WrongFeeBlocks s1
      \<and> Donations s2 = Donations s1 \<and> LatestSlot s2 = LatestSlot s1"
    by (simp add: pool)
  show ?thesis
    unfolding Let_def
    using step pool frame idle
    unfolding result_def s4_def s3_def s2_def s1_def
    by blast
qed

theorem AdvanceStateToNextSlot_BlsKeys_witness:
  "Slot (exampleBlock 7 OkPoolProposalBlsKeys) = LatestSlot exampleState
   \<and> BlockType (exampleBlock 7 OkPoolProposalBlsKeys) = OkPoolProposalBlsKeys
   \<and> AdvanceStateToNextSlot exampleMethods exampleConfig (exampleBlock 7 OkPoolProposalBlsKeys)
        [] [] [] exampleState
      = (Inr 7, exampleState\<lparr>PoolAccumulatedFees := 467, LatestSlot := 8\<rparr>)
   \<and> AdvanceStateToNextSlot idleMethods exampleConfig (exampleBlock 7 OkPoolProposalBlsKeys)
        [] [] [] exampleState
      = (Inr 7, exampleState\<lparr>PoolAccumulatedFees := 3, LatestSlot := 8\<rparr>)"
  using AdvanceStateToNextSlot_BlsKeys [of "exampleBlock 7 OkPoolProposalBlsKeys" exampleState
      exampleMethods exampleConfig "[]" "[]" "[]"]
    AdvanceStateToNextSlot_BlsKeys [of "exampleBlock 7 OkPoolProposalBlsKeys" exampleState
      idleMethods exampleConfig "[]" "[]" "[]"]
  by (simp add: exampleBlock_def exampleState_def exampleMethods_def idleMethods_def
      writeDigit_def Let_def SendRewardToPool_def)

text \<open>
  Claim C8 at a failing input. The deployment is at slot 100 and the checkpoint size is 10;
  the oracle is at slot 159 and the node has finalized slot 160. The first pass of the loop
  advances the state to slot 160 and performs the checkpoint. The next two passes find
  nothing new finalized and advance nothing, and each performs the checkpoint again; by
  the rule of the specification only the first is due.
\<close>

theorem mainLoop_checkpoint_without_progress:
  "map checkpoint
     (mainLoop exampleConfig advanceOneSlot dumpSucceeds
        [nodeAtEpoch5, nodeAtEpoch5, nodeAtEpoch5] 159)
     = [True, True, True]
   \<and> map advanced
     (mainLoop exampleConfig advanceOneSlot dumpSucceeds
        [nodeAtEpoch5, nodeAtEpoch5, nodeAtEpoch5] 159)
     = [True, False, False]
   \<and> map slotAfter
     (mainLoop exampleConfig advanceOneSlot dumpSucceeds
        [nodeAtEpoch5, nodeAtEpoch5, nodeAtEpoch5] 159)
     = [160, 160, 160]
   \<and> checkpointsDue exampleConfig False
     (mainLoop exampleConfig advanceOneSlot dumpSucceeds
        [nodeAtEpoch5, nodeAtEpoch5, nodeAtEpoch5] 159)
     = [True, False, False]"
proof -
  have first: "mainLoopPass exampleConfig advanceOneSlot dumpSucceeds nodeAtEpoch5 159
      = \<lparr>slotAfter = 160, advanced = True, checkpoint = True, ended = None\<rparr>"
    by (simp add: mainLoopPass_def checkpointStep_def exampleConfig_def nodeAtEpoch5_def
        dumpSucceeds_def advanceOneSlot_def SlotsInEpoch_def)
  have later: "mainLoopPass exampleConfig advanceOneSlot dumpSucceeds nodeAtEpoch5 160
      = \<lparr>slotAfter = 160, advanced = False, checkpoint = True, ended = None\<rparr>"
    by (simp add: mainLoopPass_def checkpointStep_def exampleConfig_def nodeAtEpoch5_def
        dumpSucceeds_def SlotsInEpoch_def)
  have run: "mainLoop exampleConfig advanceOneSlot dumpSucceeds
        [nodeAtEpoch5, nodeAtEpoch5, nodeAtEpoch5] 159
      = [\<lparr>slotAfter = 160, advanced = True, checkpoint = True, ended = None\<rparr>,
         \<lparr>slotAfter = 160, advanced = False, checkpoint = True, ended = None\<rparr>,
         \<lparr>slotAfter = 160, advanced = False, checkpoint = True, ended = None\<rparr>]"
    by (simp add: first later Let_def)
  show ?thesis
    unfolding run by (simp add: exampleConfig_def)
qed

section \<open>The overlay: when the call returns\<close>

text \<open>
  The call returns whenever every withdrawal address in the map and every sender of an
  event have one length, as the 42 bytes of a hexadecimal address.
\<close>

lemma ApplyNonFinalizedState_returns:
  assumes "\<forall>valIndex val. validators valIndex = Some val
             \<longrightarrow> length (val_WithdrawalAddress val) = n"
    and "\<forall>sub \<in> set subs. length (sub_Sender sub) = n"
    and "\<forall>unsub \<in> set unsubs. length (unsub_Sender unsub) = n"
  shows "\<exists>validators'. ApplyNonFinalizedState tbl config can subs unsubs validators = Inr validators'"
proof -
  have step: "\<exists>m'. applyEvent tbl config can ev m = Inr m'"
    if "\<forall>k v. m k = Some v \<longrightarrow> length (val_WithdrawalAddress v) = n"
      and "ev \<in> set (allEvents subs unsubs)" for ev m
  proof (cases ev)
    case (SubscriptionEvent sub)
    then have "length (sub_Sender sub) = n"
      using that(2) assms(2) by (auto simp: allEvents_def)
    then show ?thesis
      using that(1) SubscriptionEvent
      by (cases "m (sub_ValidatorID sub)")
        (auto simp: applySubscription_def AreAddressEqual_def)
  next
    case (UnsubscriptionEvent unsub)
    then have "length (unsub_Sender unsub) = n"
      using that(2) assms(3) by (auto simp: allEvents_def)
    then show ?thesis
      using that(1) UnsubscriptionEvent
      by (cases "m (unsub_ValidatorID unsub)")
        (auto simp: applyUnsubscription_def AreAddressEqual_def)
  qed
  have keep: "\<forall>k v. m' k = Some v \<longrightarrow> length (val_WithdrawalAddress v) = n"
    if "\<forall>k v. m k = Some v \<longrightarrow> length (val_WithdrawalAddress v) = n"
      and "overlay_of m m'" for m m'
  proof (intro allI impI)
    fix k v
    assume v: "m' k = Some v"
    from that(2) [unfolded overlay_of_def, rule_format, of k] v
    obtain v0 where "m k = Some v0" and "same_ledger v0 v"
      by (cases "m k") auto
    then show "length (val_WithdrawalAddress v) = n"
      using that(1) by (simp add: same_ledger_def)
  qed
  have run: "\<exists>m'. forEach (applyEvent tbl config can) evs m = Inr m'"
    if "set evs \<subseteq> set (allEvents subs unsubs)"
      and "\<forall>k v. m k = Some v \<longrightarrow> length (val_WithdrawalAddress v) = n" for evs m
    using that
  proof (induction evs arbitrary: m)
    case Nil
    then show ?case by simp
  next
    case (Cons ev evs)
    from step [OF Cons.prems(2), of ev] Cons.prems(1)
    obtain m1 where m1: "applyEvent tbl config can ev m = Inr m1"
      by auto
    have "\<forall>k v. m1 k = Some v \<longrightarrow> length (val_WithdrawalAddress v) = n"
      using Cons.prems(2) applyEvent_overlay [OF m1] by (rule keep)
    then show ?case
      using Cons.IH [of m1] Cons.prems(1) m1 by simp
  qed
  have "set (overlayOrder subs unsubs) \<subseteq> set (allEvents subs unsubs)"
    by (simp add: overlayOrder_def)
  then show ?thesis
    unfolding ApplyNonFinalizedState_overlayOrder using assms(1) by (rule run)
qed

section \<open>Leaves of the Merkle tree: properties\<close>

lemma balanceOf_append: "balanceOf a (xs @ ys) = balanceOf a xs + balanceOf a ys"
  by (simp add: balanceOf_def)

lemma map_address_merge:
  "map DepositAddress (map (\<lambda>l. if DepositAddress l = a
       then l\<lparr>AccumulatedBalance := AccumulatedBalance l + b\<rparr> else l) ls)
     = map DepositAddress ls"
  by (induction ls) auto

lemma map_address_addLeaf:
  "map DepositAddress (addLeaf ls l)
     = (if DepositAddress l \<in> DepositAddress ` set ls then map DepositAddress ls
        else map DepositAddress ls @ [DepositAddress l])"
proof (cases "DepositAddress l \<in> DepositAddress ` set ls")
  case True
  then have "addLeaf ls l = map (\<lambda>x. if DepositAddress x = DepositAddress l
      then x\<lparr>AccumulatedBalance := AccumulatedBalance x + AccumulatedBalance l\<rparr> else x) ls"
    by (simp add: addLeaf_def)
  then show ?thesis
    using True by (simp only: map_address_merge if_True)
next
  case False
  then show ?thesis by (simp add: addLeaf_def)
qed

lemma addresses_addLeaf:
  "DepositAddress ` set (addLeaf ls l) = insert (DepositAddress l) (DepositAddress ` set ls)"
proof -
  have "DepositAddress ` set (addLeaf ls l) = set (map DepositAddress (addLeaf ls l))"
    by simp
  also have "\<dots> = insert (DepositAddress l) (DepositAddress ` set ls)"
    unfolding map_address_addLeaf by auto
  finally show ?thesis .
qed

lemma distinct_addLeaf:
  "distinct (map DepositAddress ls) \<Longrightarrow> distinct (map DepositAddress (addLeaf ls l))"
  unfolding map_address_addLeaf by auto

lemma balanceOf_absent: "a \<notin> DepositAddress ` set ls \<Longrightarrow> balanceOf a ls = 0"
  by (induction ls) (auto simp: balanceOf_def)

lemma balanceOf_merge_other:
  "a \<noteq> c \<Longrightarrow>
     balanceOf a (map (\<lambda>l. if DepositAddress l = c
         then l\<lparr>AccumulatedBalance := AccumulatedBalance l + b\<rparr> else l) ls)
       = balanceOf a ls"
  by (induction ls) (auto simp: balanceOf_def)

lemma balanceOf_merge_same:
  "distinct (map DepositAddress ls) \<Longrightarrow> c \<in> DepositAddress ` set ls \<Longrightarrow>
     balanceOf c (map (\<lambda>l. if DepositAddress l = c
         then l\<lparr>AccumulatedBalance := AccumulatedBalance l + b\<rparr> else l) ls)
       = balanceOf c ls + b"
proof (induction ls)
  case Nil
  then show ?case by simp
next
  case (Cons l ls)
  show ?case
  proof (cases "DepositAddress l = c")
    case True
    then have "c \<notin> DepositAddress ` set ls"
      using Cons.prems by auto
    then have "map (\<lambda>l. if DepositAddress l = c
         then l\<lparr>AccumulatedBalance := AccumulatedBalance l + b\<rparr> else l) ls = ls"
      by (induction ls) auto
    then show ?thesis
      using True by (simp add: balanceOf_def)
  next
    case False
    then show ?thesis
      using Cons by (auto simp: balanceOf_def)
  qed
qed

lemma balanceOf_addLeaf:
  assumes "distinct (map DepositAddress ls)"
  shows "balanceOf a (addLeaf ls l) = balanceOf a ls + balanceOf a [l]"
proof (cases "DepositAddress l \<in> DepositAddress ` set ls")
  case False
  then show ?thesis
    by (simp add: addLeaf_def balanceOf_append)
next
  case True
  show ?thesis
  proof (cases "a = DepositAddress l")
    case True
    with \<open>DepositAddress l \<in> DepositAddress ` set ls\<close> assms show ?thesis
      by (simp add: addLeaf_def balanceOf_merge_same) (simp add: balanceOf_def)
  next
    case False
    with True show ?thesis
      by (simp add: addLeaf_def balanceOf_merge_other) (simp add: balanceOf_def)
  qed
qed

lemma foldl_addLeaf:
  "distinct (map DepositAddress acc) \<Longrightarrow>
     distinct (map DepositAddress (foldl addLeaf acc ls))
     \<and> DepositAddress ` set (foldl addLeaf acc ls)
         = DepositAddress ` set acc \<union> DepositAddress ` set ls
     \<and> (\<forall>a. balanceOf a (foldl addLeaf acc ls) = balanceOf a acc + balanceOf a ls)"
proof (induction ls arbitrary: acc)
  case Nil
  then show ?case by (simp add: balanceOf_def)
next
  case (Cons l ls)
  have d: "distinct (map DepositAddress (addLeaf acc l))"
    using Cons.prems by (rule distinct_addLeaf)
  have split: "balanceOf a (l # ls) = balanceOf a [l] + balanceOf a ls" for a
    by (simp add: balanceOf_def)
  show ?case
    using Cons.IH [OF d] Cons.prems
    by (simp add: addresses_addLeaf balanceOf_addLeaf split)
qed

lemma balanceOf_distinct_member:
  "distinct (map DepositAddress ls) \<Longrightarrow> l \<in> set ls \<Longrightarrow>
     balanceOf (DepositAddress l) ls = AccumulatedBalance l"
proof (induction ls)
  case Nil
  then show ?case by simp
next
  case (Cons x xs)
  show ?case
  proof (cases "l = x")
    case True
    then have "DepositAddress l \<notin> DepositAddress ` set xs"
      using Cons.prems by auto
    then have "balanceOf (DepositAddress l) xs = 0"
      by (rule balanceOf_absent)
    then show ?thesis
      using True by (simp add: balanceOf_def)
  next
    case False
    then have "l \<in> set xs" and "DepositAddress x \<noteq> DepositAddress l"
      using Cons.prems by auto
    then show ?thesis
      using Cons by (simp add: balanceOf_def)
  qed
qed

lemma balanceOf_sort_key: "balanceOf a (sort_key f ls) = balanceOf a ls"
proof -
  have "mset (filter (\<lambda>l. DepositAddress l = a) (sort_key f ls))
      = mset (filter (\<lambda>l. DepositAddress l = a) ls)"
    by simp
  then have "mset (map AccumulatedBalance (filter (\<lambda>l. DepositAddress l = a) (sort_key f ls)))
      = mset (map AccumulatedBalance (filter (\<lambda>l. DepositAddress l = a) ls))"
    by (metis mset_map)
  then show ?thesis
    unfolding balanceOf_def by (metis sum_mset_sum_list)
qed

lemma balanceOf_validatorLeaf:
  "balanceOf a (map validatorLeaf vs)
     = sum_list (map AccumulatedRewardsWei (filter (\<lambda>v. val_WithdrawalAddress v = a) vs))"
  by (induction vs) (auto simp: balanceOf_def validatorLeaf_def)

lemma aggregateLeaves_props:
  "distinct (map DepositAddress (aggregateLeaves ls))
   \<and> DepositAddress ` set (aggregateLeaves ls) = DepositAddress ` set ls
   \<and> (\<forall>a. balanceOf a (aggregateLeaves ls) = balanceOf a ls)"
  using foldl_addLeaf [of "[]" ls] by (simp add: aggregateLeaves_def balanceOf_def)

lemma distinct_map_sort_key:
  "distinct (map g (sort_key f xs)) = distinct (map g xs)"
proof -
  have "mset (map g (sort_key f xs)) = mset (map g xs)"
    by simp
  then show ?thesis
    by (rule mset_eq_imp_distinct_iff)
qed


lemma sum_merge:
  "distinct (map DepositAddress ls) \<Longrightarrow> c \<in> DepositAddress ` set ls \<Longrightarrow>
     sum_list (map AccumulatedBalance (map (\<lambda>l. if DepositAddress l = c
         then l\<lparr>AccumulatedBalance := AccumulatedBalance l + b\<rparr> else l) ls))
       = sum_list (map AccumulatedBalance ls) + b"
proof (induction ls)
  case Nil
  then show ?case by simp
next
  case (Cons l ls)
  show ?case
  proof (cases "DepositAddress l = c")
    case True
    then have "c \<notin> DepositAddress ` set ls"
      using Cons.prems by auto
    then have "map (\<lambda>l. if DepositAddress l = c
         then l\<lparr>AccumulatedBalance := AccumulatedBalance l + b\<rparr> else l) ls = ls"
      by (induction ls) auto
    then show ?thesis
      using True by simp
  next
    case False
    then show ?thesis
      using Cons by auto
  qed
qed

lemma sum_addLeaf:
  assumes "distinct (map DepositAddress ls)"
  shows "sum_list (map AccumulatedBalance (addLeaf ls l))
           = sum_list (map AccumulatedBalance ls) + AccumulatedBalance l"
proof (cases "DepositAddress l \<in> DepositAddress ` set ls")
  case True
  then have "addLeaf ls l = map (\<lambda>x. if DepositAddress x = DepositAddress l
      then x\<lparr>AccumulatedBalance := AccumulatedBalance x + AccumulatedBalance l\<rparr> else x) ls"
    by (simp add: addLeaf_def)
  then show ?thesis
    using assms True by (simp only: sum_merge)
next
  case False
  then show ?thesis by (simp add: addLeaf_def)
qed

lemma sum_foldl_addLeaf:
  "distinct (map DepositAddress acc) \<Longrightarrow>
     sum_list (map AccumulatedBalance (foldl addLeaf acc ls))
       = sum_list (map AccumulatedBalance acc) + sum_list (map AccumulatedBalance ls)"
proof (induction ls arbitrary: acc)
  case Nil
  then show ?case by simp
next
  case (Cons l ls)
  have "distinct (map DepositAddress (addLeaf acc l))"
    using Cons.prems by (rule distinct_addLeaf)
  then show ?case
    using Cons.IH [of "addLeaf acc l"] Cons.prems by (simp add: sum_addLeaf)
qed

lemma sum_sort_key:
  "sum_list (map AccumulatedBalance (sort_key f xs)) = sum_list (map AccumulatedBalance xs)"
proof -
  have "mset (map AccumulatedBalance (sort_key f xs)) = mset (map AccumulatedBalance xs)"
    by simp
  then show ?thesis
    by (metis sum_mset_sum_list)
qed

lemma AggregateValidatorsIndexes_props:
  fixes state
  defines "leaves \<equiv> AggregateValidatorsIndexes state"
    and "vs \<equiv> map snd (Validators state)"
  shows distinct_leaves: "distinct (map DepositAddress leaves)"
    and sorted_leaves: "sorted (map DepositAddress leaves)"
    and addresses_leaves:
      "DepositAddress ` set leaves = insert (PoolFeesAddress state) (val_WithdrawalAddress ` set vs)"
    and balance_leaves:
      "leaf \<in> set leaves \<Longrightarrow> AccumulatedBalance leaf
         = (if DepositAddress leaf = PoolFeesAddress state then PoolAccumulatedFees state else 0)
           + sum_list (map AccumulatedRewardsWei
               (filter (\<lambda>v. val_WithdrawalAddress v = DepositAddress leaf) vs))"
    and sum_leaves:
      "sum_list (map AccumulatedBalance leaves)
         = PoolAccumulatedFees state + sum_list (map AccumulatedRewardsWei vs)"
proof -
  let ?raw = "poolFeesLeaf state # map validatorLeaf vs"
  have leaves: "leaves = sort_key DepositAddress (aggregateLeaves ?raw)"
    by (simp add: leaves_def vs_def AggregateValidatorsIndexes_def OrderByDepositAddress_def)
  note agg = aggregateLeaves_props [of ?raw]
  show d: "distinct (map DepositAddress leaves)"
    using agg by (simp add: leaves distinct_map_sort_key)
  show "sorted (map DepositAddress leaves)"
    by (simp add: leaves)
  show "DepositAddress ` set leaves = insert (PoolFeesAddress state) (val_WithdrawalAddress ` set vs)"
    using agg by (simp add: leaves poolFeesLeaf_def validatorLeaf_def image_image)
  show "AccumulatedBalance leaf
         = (if DepositAddress leaf = PoolFeesAddress state then PoolAccumulatedFees state else 0)
           + sum_list (map AccumulatedRewardsWei
               (filter (\<lambda>v. val_WithdrawalAddress v = DepositAddress leaf) vs))"
    if "leaf \<in> set leaves"
  proof -
    have "AccumulatedBalance leaf = balanceOf (DepositAddress leaf) leaves"
      using d that by (simp add: balanceOf_distinct_member)
    also have "\<dots> = balanceOf (DepositAddress leaf) ?raw"
      using agg by (simp add: leaves balanceOf_sort_key)
    also have "\<dots> = balanceOf (DepositAddress leaf) [poolFeesLeaf state]
        + balanceOf (DepositAddress leaf) (map validatorLeaf vs)"
      by (simp add: balanceOf_def)
    finally show ?thesis
      by (simp add: balanceOf_validatorLeaf) (simp add: balanceOf_def poolFeesLeaf_def)
  qed
  have "sum_list (map AccumulatedBalance (map validatorLeaf vs))
      = sum_list (map AccumulatedRewardsWei vs)"
    by (simp add: comp_def validatorLeaf_def)
  then show "sum_list (map AccumulatedBalance leaves)
      = PoolAccumulatedFees state + sum_list (map AccumulatedRewardsWei vs)"
    using sum_foldl_addLeaf [of "[]" ?raw]
    by (simp add: leaves sum_sort_key aggregateLeaves_def poolFeesLeaf_def)
qed






end
